theory Spec2Isabelle
  imports Complex_Main
begin

section \<open>Reminder processing, template rendering and status reconciliation\<close>

text \<open>
  A shallow embedding of the reminder pipeline of the invoice tool:
  \<^verbatim>\<open>src/lib/email.ts\<close> (\<^verbatim>\<open>sendEmail\<close>, \<^verbatim>\<open>processScheduledReminders\<close>,
  \<^verbatim>\<open>formatEmailTemplate\<close>), the trigger \<^verbatim>\<open>app/api/reminders/process/route.ts\<close>,
  the preview formatter \<^verbatim>\<open>getFormattedPreview\<close> of the reminder scheduler, and the
  two invoice queries (single invoice, invoice list) that flip \<^verbatim>\<open>sent\<close> invoices to
  \<^verbatim>\<open>overdue\<close>.

  Everything the code takes from outside is an explicit input: the rows of the store, the
  readings of the clock, the time zone of the runtime, and the answers of the store and of
  the mail provider.
\<close>

subsection \<open>Strings and numbers of the host language\<close>

text \<open>
  Strings are lists of code units. Every token and every special replacement pattern is
  ASCII, so matching is the same on UTF-16 code units and on UTF-8 bytes.
\<close>

definition digit_char :: "nat \<Rightarrow> char" where
  "digit_char n = char_of (48 + n)"

text \<open>\<^verbatim>\<open>String(n)\<close> for a non-negative integer below \<open>10^21\<close>: its decimal digits.\<close>

fun dec :: "nat \<Rightarrow> string" where
  "dec n = (if n < 10 then [digit_char n] else dec (n div 10) @ [digit_char (n mod 10)])"

declare dec.simps [simp del]

text \<open>
  For a magnitude of \<open>10^21\<close> or more \<^verbatim>\<open>toFixed\<close> prints what \<^verbatim>\<open>String(x)\<close> prints, a
  number in exponent notation with the shortest digits that read back as the same number.
  That text is not modelled: nothing is known of \<open>exponent_notation\<close>, so nothing proved
  here says anything about such an amount.
\<close>

definition exponent_notation :: "rat \<Rightarrow> string" where
  "exponent_notation = undefined"

text \<open>
  \<^verbatim>\<open>x.toFixed(2)\<close>. For a magnitude below \<open>10^21\<close>: the integer \<open>n\<close> with \<open>n / 100\<close>
  closest to \<open>|x|\<close> (the larger one on a tie), printed with two fraction digits, after a
  minus sign when \<open>x < 0\<close>. The amount is the exact value of the number.
\<close>

definition toFixed2 :: "rat \<Rightarrow> string" where
  "toFixed2 x =
     (if 1000000000000000000000 \<le> \<bar>x\<bar> then exponent_notation x
      else
        (let n = nat \<lfloor>\<bar>x\<bar> * 100 + 1 / 2\<rfloor>
         in (if x < 0 then ''-'' else '''')
            @ dec (n div 100) @ ''.'' @ [digit_char (n mod 100 div 10), digit_char (n mod 10)]))"

fun starts_with :: "string \<Rightarrow> string \<Rightarrow> bool" where
  "starts_with [] s = True"
| "starts_with (k # ks) [] = False"
| "starts_with (k # ks) (c # cs) = (k = c \<and> starts_with ks cs)"

text \<open>
  The replacement text of \<^verbatim>\<open>String.prototype.replace\<close> is a pattern: \<^verbatim>\<open>$$\<close> stands for a
  dollar sign, \<^verbatim>\<open>$&\<close> for the matched text, \<^verbatim>\<open>$`\<close> for the part of the input before the
  match, \<^verbatim>\<open>$'\<close> for the part after it. The expressions built from the tokens have no
  capture groups, so \<^verbatim>\<open>$1\<close>, \<^verbatim>\<open>$<\<close> and a lone \<^verbatim>\<open>$\<close> stay as they are.
\<close>

fun get_substitution :: "string \<Rightarrow> string \<Rightarrow> string \<Rightarrow> string \<Rightarrow> string" where
  "get_substitution matched passed rest [] = []"
| "get_substitution matched passed rest [c] = [c]"
| "get_substitution matched passed rest (c # d # t) =
     (if c = CHR ''$'' \<and> d = CHR ''$'' then CHR ''$'' # get_substitution matched passed rest t
      else if c = CHR ''$'' \<and> d = CHR ''&'' then matched @ get_substitution matched passed rest t
      else if c = CHR ''$'' \<and> d = CHR 0x60 then passed @ get_substitution matched passed rest t
      else if c = CHR ''$'' \<and> d = CHR 0x27 then rest @ get_substitution matched passed rest t
      else c # get_substitution matched passed rest (d # t))"

text \<open>
  \<^verbatim>\<open>s.replace(new RegExp(key, "g"), value)\<close> for a key that the expression syntax reads
  as literal text (a brace that opens no quantifier is an ordinary character; all seven
  tokens and the newline are of this kind): every occurrence of the key, found from left to
  right without overlap, is replaced by the expansion of \<open>value\<close>. \<open>passed\<close> is the
  part of the input to the left of the current position.
\<close>

fun replace_from :: "string \<Rightarrow> string \<Rightarrow> string \<Rightarrow> string \<Rightarrow> string" where
  "replace_from key v passed [] = []"
| "replace_from key v passed (c # cs) =
     (if key \<noteq> [] \<and> starts_with key (c # cs)
      then get_substitution key passed (drop (length key - 1) cs) v
           @ replace_from key v (passed @ key) (drop (length key - 1) cs)
      else c # replace_from key v (passed @ [c]) cs)"

definition replace_all :: "string \<Rightarrow> string \<Rightarrow> string \<Rightarrow> string" where
  "replace_all key v s = replace_from key v [] s"

subsection \<open>Calendar dates and instants\<close>

text \<open>
  An instant is a number of milliseconds since the epoch, as \<^verbatim>\<open>getTime()\<close> returns it.
  A due date is what a date column holds, a valid calendar date \<^verbatim>\<open>YYYY-MM-DD\<close>, read as
  year, month and day.
  The day arithmetic is the one of the language standard (\<^verbatim>\<open>DayFromYear\<close>,
  \<^verbatim>\<open>YearFromTime\<close>, \<^verbatim>\<open>MonthFromTime\<close>, \<^verbatim>\<open>DateFromTime\<close>), on day numbers. A time
  zone is a fixed offset in milliseconds east of UTC.
\<close>

datatype iso_date = IsoDate (iso_year: nat) (iso_month: nat) (iso_day: nat)

definition msPerDay :: int where
  "msPerDay = 86400000"

definition DayFromYear :: "int \<Rightarrow> int" where
  "DayFromYear y = 365 * (y - 1970) + (y - 1969) div 4 - (y - 1901) div 100 + (y - 1601) div 400"

definition InLeapYear :: "int \<Rightarrow> bool" where
  "InLeapYear y = (y mod 4 = 0 \<and> (y mod 100 \<noteq> 0 \<or> y mod 400 = 0))"

text \<open>The number of days of the year before the first of month \<open>m\<close> (1 to 12).\<close>

definition days_before_month :: "bool \<Rightarrow> nat \<Rightarrow> int" where
  "days_before_month leap m =
     (if m \<le> 1 then 0 else if m = 2 then 31
      else ([59, 90, 120, 151, 181, 212, 243, 273, 304, 334] ! (min m 12 - 3))
           + (if leap then 1 else 0))"

definition MakeDay :: "iso_date \<Rightarrow> int" where
  "MakeDay d = DayFromYear (int (iso_year d))
     + days_before_month (InLeapYear (int (iso_year d))) (iso_month d) + int (iso_day d) - 1"

text \<open>\<^verbatim>\<open>new Date("YYYY-MM-DD").getTime()\<close>: a date-only text is midnight UTC.\<close>

definition date_utc :: "iso_date \<Rightarrow> int" where
  "date_utc d = MakeDay d * msPerDay"

text \<open>\<^verbatim>\<open>parseISO("YYYY-MM-DD").getTime()\<close>: midnight in the zone of the runtime.\<close>

definition parseISO :: "int \<Rightarrow> iso_date \<Rightarrow> int" where
  "parseISO tz d = MakeDay d * msPerDay - tz"

text \<open>
  \<^verbatim>\<open>YearFromTime\<close>: the largest year whose first day is not after the day. The search
  starts from a year that is not after it (no year has fewer than 365 or more than 366
  days) and climbs.
\<close>

function year_climb :: "int \<Rightarrow> int \<Rightarrow> int" where
  "year_climb y day = (if DayFromYear (y + 1) \<le> day then year_climb (y + 1) day else y)"
  by pat_completeness auto
termination
proof (relation "measure (\<lambda>(y, day). nat (day + 1 - DayFromYear y))")
  show "wf (measure (\<lambda>(y, day). nat (day + 1 - DayFromYear y)))" by simp
next
  fix y day :: int
  assume le: "DayFromYear (y + 1) \<le> day"
  have a: "(y - 1969) div 4 \<le> (y + 1 - 1969) div 4"
    by (rule zdiv_mono1) simp_all
  have b: "(y + 1 - 1901) div 100 \<le> (y - 1901) div 100 + 1"
    by linarith
  have c: "(y - 1601) div 400 \<le> (y + 1 - 1601) div 400"
    by (rule zdiv_mono1) simp_all
  have step: "p \<le> p' \<Longrightarrow> q' \<le> q + 1 \<Longrightarrow> r \<le> r' \<Longrightarrow>
      365 * (y - 1970) + p - q + r < 365 * (y + 1 - 1970) + p' - q' + r'"
    for p p' q q' r r' :: int
    by simp
  have "DayFromYear y < DayFromYear (y + 1)"
    unfolding DayFromYear_def by (rule step [OF a b c])
  with le show "((y + 1, day), (y, day)) \<in> measure (\<lambda>(y, day). nat (day + 1 - DayFromYear y))"
    by simp
qed

declare year_climb.simps [simp del]

definition YearFromDay :: "int \<Rightarrow> int" where
  "YearFromDay day =
     year_climb (1970 + (if 0 \<le> day then day div 366 else day div 365)) day"

fun month_climb :: "bool \<Rightarrow> int \<Rightarrow> nat \<Rightarrow> nat \<Rightarrow> nat" where
  "month_climb leap dayInYear m 0 = m"
| "month_climb leap dayInYear m (Suc k) =
     (if days_before_month leap (m + 1) \<le> dayInYear
      then month_climb leap dayInYear (m + 1) k else m)"

text \<open>The calendar date of a day number: \<^verbatim>\<open>(YearFromTime, MonthFromTime + 1, DateFromTime)\<close>.\<close>

definition civil_of_day :: "int \<Rightarrow> int \<times> nat \<times> nat" where
  "civil_of_day day =
     (let y = YearFromDay day;
          leap = InLeapYear y;
          dayInYear = day - DayFromYear y;
          m = month_climb leap dayInYear 1 11
      in (y, m, nat (dayInYear - days_before_month leap m + 1)))"

text \<open>The calendar date that a runtime in zone \<open>tz\<close> shows for an instant.\<close>

definition local_civil :: "int \<Rightarrow> int \<Rightarrow> int \<times> nat \<times> nat" where
  "local_civil tz t = civil_of_day ((t + tz) div msPerDay)"

definition month_name :: "nat \<Rightarrow> string" where
  "month_name m =
     [''January'', ''February'', ''March'', ''April'', ''May'', ''June'', ''July'',
      ''August'', ''September'', ''October'', ''November'', ''December''] ! (min (m - 1) 11)"

text \<open>
  The year as both formatters print it: the year of the era, without the era. The year 0
  of the calendar is printed as 1, the year before it as 2.
\<close>

definition printed_year :: "int \<Rightarrow> nat" where
  "printed_year y = nat (if 0 < y then y else 1 - y)"

text \<open>
  \<^verbatim>\<open>toLocaleDateString("en-US", {year: "numeric", month: "long", day: "numeric"})\<close>:
  month name, day and year, the numbers without padding, in the zone of the runtime.
\<close>

definition toLocaleDateString :: "int \<Rightarrow> int \<Rightarrow> string" where
  "toLocaleDateString tz t =
     (case local_civil tz t of
        (y, m, d) \<Rightarrow> month_name m @ '' '' @ dec d @ '', '' @ dec (printed_year y))"

text \<open>
  \<^verbatim>\<open>format(date, "MMMM d, yyyy")\<close> of the date library: the same, with the year padded
  with zeros to four digits.
\<close>

definition pad4 :: "string \<Rightarrow> string" where
  "pad4 s = replicate (4 - length s) (CHR ''0'') @ s"

definition format_MMMM_d_yyyy :: "int \<Rightarrow> int \<Rightarrow> string" where
  "format_MMMM_d_yyyy tz t =
     (case local_civil tz t of (y, m, d) \<Rightarrow>
        month_name m @ '' '' @ dec d @ '', '' @ pad4 (dec (printed_year y)))"

subsection \<open>Rows of the store\<close>

text \<open>
  The columns the code reads or writes; ids are the text the store gives them. An amount
  is the exact value of the number the store returns. An instant in a timestamp column is
  a number of milliseconds, and the store compares instants.
\<close>

datatype invoice_status = Draft | Sent | PartiallyPaid | Paid | Overdue

datatype reminder_status = Pending | Approved | ReminderSent | Cancelled

record user =
  user_id :: string
  user_email :: string
  full_name :: "string option"

record client =
  client_id :: string
  client_name :: string
  client_email :: string

record invoice =
  invoice_id :: string
  invoice_user_id :: string
  invoice_client_id :: string
  invoice_number :: string
  due_date :: iso_date
  amount :: rat
  currency :: string
  invoice_status :: invoice_status

record message_template =
  template_id :: string
  subject :: string
  body :: string

record reminder =
  reminder_id :: string
  reminder_invoice_id :: string
  reminder_template_id :: string
  scheduled_date :: int
  reminder_status :: reminder_status
  sent_at :: "int option"

text \<open>
  What a select with embedded rows returns: \<^verbatim>\<open>invoice:invoices(*, client:clients(*))\<close>
  and \<^verbatim>\<open>template:message_templates(*)\<close>. An embedded row that does not exist is null.
\<close>

record invoice_with_client =
  inv :: invoice
  client :: "client option"

record due_reminder =
  rem :: reminder
  invoice :: "invoice_with_client option"
  template :: "message_template option"

datatype js_error =
  TypeError
  | MissingData
  | StoreError string

subsection \<open>The template renderer of the processor and the preview of the scheduler\<close>

text \<open>
  \<^verbatim>\<open>daysOverdue > 0 ? daysOverdue : 0\<close> of
  \<^verbatim>\<open>Math.floor((today.getTime() - dueDate.getTime()) / (1000 * 60 * 60 * 24))\<close>, as text.
  Both instants are whole milliseconds, and the quotient of the language agrees with the
  exact one on every pair of instants less than \<open>2^27\<close> days apart.
\<close>

definition days_overdue_text :: "int \<Rightarrow> int \<Rightarrow> string" where
  "days_overdue_text today dueDate =
     (let daysOverdue = (today - dueDate) div msPerDay
      in dec (nat (if daysOverdue > 0 then daysOverdue else 0)))"

text \<open>The \<^verbatim>\<open>replacements\<close> object of \<^verbatim>\<open>formatEmailTemplate\<close>, in the order of its keys.\<close>

definition email_replacements ::
    "int \<Rightarrow> int \<Rightarrow> invoice \<Rightarrow> client \<Rightarrow> (string \<times> string) list" where
  "email_replacements tz today i c =
     (let dueDate = date_utc (due_date i)
      in [(''{invoice_number}'', invoice_number i),
          (''{amount}'', currency i @ '' '' @ toFixed2 (amount i)),
          (''{due_date}'', toLocaleDateString tz dueDate),
          (''{days_overdue}'', days_overdue_text today dueDate),
          (''{client_name}'', client_name c),
          (''{user_name}'', []),
          (''{company_name}'', [])])"

text \<open>The \<^verbatim>\<open>replacements\<close> object of \<^verbatim>\<open>getFormattedPreview\<close>.\<close>

definition preview_replacements ::
    "int \<Rightarrow> int \<Rightarrow> invoice \<Rightarrow> client \<Rightarrow> (string \<times> string) list" where
  "preview_replacements tz today i c =
     (let dueDate = parseISO tz (due_date i)
      in [(''{invoice_number}'', invoice_number i),
          (''{amount}'', currency i @ '' '' @ toFixed2 (amount i)),
          (''{due_date}'', format_MMMM_d_yyyy tz dueDate),
          (''{days_overdue}'', days_overdue_text today dueDate),
          (''{client_name}'', client_name c),
          (''{user_name}'', []),
          (''{company_name}'', [])])"

text \<open>
  \<^verbatim>\<open>Object.entries(replacements).forEach(...)\<close>: each entry in turn rewrites the subject
  and the body reached so far.
\<close>

fun replace_each :: "(string \<times> string) list \<Rightarrow> string \<times> string \<Rightarrow> string \<times> string" where
  "replace_each [] sb = sb"
| "replace_each ((key, v) # entries) (s, b) =
     replace_each entries (replace_all key v s, replace_all key v b)"

text \<open>
  \<^verbatim>\<open>formatEmailTemplate(template, invoice)\<close> in a runtime whose zone is \<open>tz\<close> and whose
  clock reads \<open>today\<close>. The result is the pair of \<^verbatim>\<open>subject\<close> and \<^verbatim>\<open>body\<close>.
\<close>

definition formatEmailTemplate ::
    "int \<Rightarrow> int \<Rightarrow> message_template option \<Rightarrow> invoice_with_client option
      \<Rightarrow> js_error + (string \<times> string)" where
  "formatEmailTemplate tz today tpl i =
     (case tpl of None \<Rightarrow> Inl MissingData
      | Some t \<Rightarrow>
     (case i of None \<Rightarrow> Inl MissingData
      | Some iv \<Rightarrow>
     (case client iv of None \<Rightarrow> Inl MissingData
      | Some c \<Rightarrow>
        (case replace_each (email_replacements tz today (inv iv) c) (subject t, body t) of
           (s, b) \<Rightarrow> Inr (s, replace_all [CHR 0x0A] ''<br />'' b)))))"

text \<open>
  \<^verbatim>\<open>getFormattedPreview(template)\<close> of the scheduler, whose \<^verbatim>\<open>invoice\<close> is the joined
  invoice the component has loaded (or nothing yet).
\<close>

definition getFormattedPreview ::
    "int \<Rightarrow> int \<Rightarrow> invoice_with_client option \<Rightarrow> message_template \<Rightarrow> message_template" where
  "getFormattedPreview tz today i t =
     (case i of None \<Rightarrow> t
      | Some iv \<Rightarrow>
     (case client iv of None \<Rightarrow> t
      | Some c \<Rightarrow>
        (case replace_each (preview_replacements tz today (inv iv) c) (subject t, body t) of
           (s, b) \<Rightarrow> t\<lparr>subject := s, body := b\<rparr>)))"

subsection \<open>The store, the server and what a run leaves behind\<close>

record store =
  users :: "user list"
  clients :: "client list"
  invoices :: "invoice list"
  message_templates :: "message_template list"
  reminders :: "reminder list"

text \<open>
  The server is everything outside the store that a run of the processor depends on: its
  configuration, its time zone, the readings of its clock and the answers it gets. Each
  due reminder is handled once in a run, so the clock readings and the answers that belong
  to one reminder are indexed by its id:
  \<^item> \<open>now\<close> is the reading of \<^verbatim>\<open>const now = new Date()\<close> at the start of the run;
  \<^item> \<open>today\<close> is the reading inside \<^verbatim>\<open>formatEmailTemplate\<close>;
  \<^item> \<open>sent_now\<close> is the reading of \<^verbatim>\<open>sent_at: new Date().toISOString()\<close>;
  \<^item> \<open>due_query_error\<close> is the \<^verbatim>\<open>error\<close> of the select of due reminders;
  \<^item> \<open>mail_send\<close> is what \<^verbatim>\<open>mail.send(msg)\<close> does: it resolves, or throws an error
    with a message;
  \<^item> \<open>update_applied\<close> tells whether the store applies the update of that reminder (the
    call resolves either way, and the code does not look at its \<^verbatim>\<open>error\<close>).
\<close>

datatype mail_outcome = Delivered | Rejected string

record server =
  SENDGRID_API_KEY :: "string option"
  EMAIL_FROM :: "string option"
  API_SECRET_KEY :: "string option"
  time_zone :: int
  now :: int
  today :: "string \<Rightarrow> int"
  sent_now :: "string \<Rightarrow> int"
  due_query_error :: "string option"
  mail_send :: "string \<Rightarrow> mail_outcome"
  update_applied :: "string \<Rightarrow> bool"

record email_content =
  to :: string
  email_subject :: string
  email_body :: string
  fromName :: "string option"
  fromEmail :: "string option"
  replyTo :: "string option"

record sendgrid_msg =
  msg_to :: string
  msg_from_email :: string
  msg_from_name :: string
  msg_subject :: string
  msg_html :: string
  msg_replyTo :: string

datatype send_result = Success | Failure string

datatype reminder_patch = SetCancelled | SetSent int

datatype log_entry =
  EmailSendingFailed string
  | FailedToSendReminder string string
  | ErrorProcessingReminder string js_error
  | ErrorProcessingScheduledReminders js_error
  | ErrorProcessingReminders js_error

text \<open>
  The calls a run makes to the outside, in order: \<open>SendEmailCall\<close> is the call of the
  email transport \<^verbatim>\<open>sendEmail(content)\<close> made for a reminder, with what it returned,
  \<open>MailSend\<close> the call of the provider inside it, \<open>UpdateReminder\<close> and
  \<open>UpdateInvoice\<close> the updates sent to the store, \<open>ConsoleError\<close> a line of the log.
\<close>

datatype event =
  SendEmailCall string email_content send_result
  | MailSend sendgrid_msg
  | UpdateReminder string reminder_patch
  | UpdateInvoice string invoice_status
  | ConsoleError log_entry

text \<open>\<^verbatim>\<open>a || b\<close> on texts that may be missing: an empty text counts as missing.\<close>

definition truthy :: "string option \<Rightarrow> string option" where
  "truthy s = (case s of None \<Rightarrow> None | Some x \<Rightarrow> if x = [] then None else Some x)"

definition or_else :: "string option \<Rightarrow> string \<Rightarrow> string" where
  "or_else s d = (case truthy s of None \<Rightarrow> d | Some x \<Rightarrow> x)"

text \<open>
  \<^verbatim>\<open>sendEmail(content)\<close>, called for the reminder \<open>rid\<close>. It never throws: whatever
  goes wrong inside is logged and returned as a failure.
\<close>

definition sendEmail :: "server \<Rightarrow> string \<Rightarrow> email_content \<Rightarrow> send_result \<times> event list" where
  "sendEmail srv rid content =
     (case truthy (SENDGRID_API_KEY srv) of
        None \<Rightarrow>
          (Failure ''SendGrid API key is not configured'',
           [ConsoleError (EmailSendingFailed ''SendGrid API key is not configured'')])
      | Some k \<Rightarrow>
          (let from_email =
                 or_else (fromEmail content) (or_else (EMAIL_FROM srv) ''noreply@invoicenudger.com'');
               from_name = or_else (fromName content) ''Invoice Nudger'';
               reply_to = or_else (replyTo content) from_email;
               msg = \<lparr>msg_to = to content, msg_from_email = from_email,
                      msg_from_name = from_name, msg_subject = email_subject content,
                      msg_html = email_body content, msg_replyTo = reply_to\<rparr>
           in case mail_send srv rid of
                Delivered \<Rightarrow> (Success, [MailSend msg])
              | Rejected m \<Rightarrow>
                  (Failure (or_else (Some m) ''Failed to send email''),
                   [MailSend msg, ConsoleError (EmailSendingFailed m)])))"

text \<open>The select of due reminders with its embedded rows, on the rows of the store.\<close>

definition embed_client :: "store \<Rightarrow> invoice \<Rightarrow> invoice_with_client" where
  "embed_client st i =
     \<lparr>inv = i, client = find (\<lambda>c. client_id c = invoice_client_id i) (clients st)\<rparr>"

definition is_due :: "int \<Rightarrow> reminder \<Rightarrow> bool" where
  "is_due t r = (reminder_status r = Pending \<and> scheduled_date r \<le> t)"

definition embed_reminder :: "store \<Rightarrow> reminder \<Rightarrow> due_reminder" where
  "embed_reminder st r =
     \<lparr>rem = r,
      invoice = map_option (embed_client st)
                  (find (\<lambda>i. invoice_id i = reminder_invoice_id r) (invoices st)),
      template = find (\<lambda>t. template_id t = reminder_template_id r) (message_templates st)\<rparr>"

definition select_due :: "store \<Rightarrow> int \<Rightarrow> due_reminder list" where
  "select_due st t = map (embed_reminder st) (filter (is_due t) (reminders st))"

text \<open>\<^verbatim>\<open>.select("*").eq("id", id).single()\<close> on users: the row if there is exactly one.\<close>

definition single_user :: "store \<Rightarrow> string \<Rightarrow> user option" where
  "single_user st uid =
     (case filter (\<lambda>u. user_id u = uid) (users st) of [u] \<Rightarrow> Some u | _ \<Rightarrow> None)"

fun apply_patch :: "reminder_patch \<Rightarrow> reminder \<Rightarrow> reminder" where
  "apply_patch SetCancelled r = r\<lparr>reminder_status := Cancelled\<rparr>"
| "apply_patch (SetSent t) r = r\<lparr>reminder_status := ReminderSent, sent_at := Some t\<rparr>"

text \<open>
  \<^verbatim>\<open>supabase.from("reminders").update(patch).eq("id", rid)\<close>: the call is made; the
  store changes every row with that id when it applies the update.
\<close>

definition update_reminder ::
    "server \<Rightarrow> string \<Rightarrow> reminder_patch \<Rightarrow> store \<times> event list \<Rightarrow> store \<times> event list" where
  "update_reminder srv rid p s =
     ((if update_applied srv rid
       then (fst s)\<lparr>reminders :=
               map (\<lambda>r. if reminder_id r = rid then apply_patch p r else r) (reminders (fst s))\<rparr>
       else fst s),
      snd s @ [UpdateReminder rid p])"

subsection \<open>The reminder processor\<close>

text \<open>
  The body of the inner \<^verbatim>\<open>try\<close> for one due reminder. \<open>Inl\<close> is a throw: reading
  \<^verbatim>\<open>reminder.invoice.status\<close> of a missing invoice, or the renderer's own error. Every
  throw happens before the first call to the outside.
\<close>

definition process_reminder ::
    "server \<Rightarrow> due_reminder \<Rightarrow> store \<times> event list \<Rightarrow> js_error + store \<times> event list" where
  "process_reminder srv r s =
     (let rid = reminder_id (rem r)
      in case invoice r of
           None \<Rightarrow> Inl TypeError
         | Some iv \<Rightarrow>
             if invoice_status (inv iv) = Paid
             then Inr (update_reminder srv rid SetCancelled s)
             else
               (case formatEmailTemplate (time_zone srv) (today srv rid) (template r) (invoice r) of
                  Inl e \<Rightarrow> Inl e
                | Inr (subj, bod) \<Rightarrow>
                    (let usr = single_user (fst s) (invoice_user_id (inv iv))
                     in case client iv of
                          None \<Rightarrow> Inl TypeError
                        | Some c \<Rightarrow>
                            (let content =
                                   \<lparr>to = client_email c, email_subject = subj, email_body = bod,
                                    fromName = truthy (Option.bind usr full_name),
                                    fromEmail = None,
                                    replyTo = truthy (map_option user_email usr)\<rparr>;
                                 res = sendEmail srv rid content;
                                 s1 = (fst s, snd s @ SendEmailCall rid content (fst res) # snd res)
                             in case fst res of
                                  Success \<Rightarrow>
                                    Inr (update_reminder srv rid (SetSent (sent_now srv rid)) s1)
                                | Failure e \<Rightarrow>
                                    Inr (fst s1,
                                         snd s1 @ [ConsoleError (FailedToSendReminder rid e)])))))"

text \<open>The inner \<^verbatim>\<open>try\<close> with its \<^verbatim>\<open>catch\<close>, which logs a throw.\<close>

definition try_reminder ::
    "server \<Rightarrow> due_reminder \<Rightarrow> store \<times> event list \<Rightarrow> store \<times> event list" where
  "try_reminder srv r s =
     (case process_reminder srv r s of
        Inl e \<Rightarrow>
          (fst s, snd s @ [ConsoleError (ErrorProcessingReminder (reminder_id (rem r)) e)])
      | Inr s' \<Rightarrow> s')"

text \<open>The \<^verbatim>\<open>for\<close> loop over the due reminders.\<close>

fun process_each ::
    "server \<Rightarrow> due_reminder list \<Rightarrow> store \<times> event list \<Rightarrow> store \<times> event list" where
  "process_each srv [] s = s"
| "process_each srv (r # rs) s = process_each srv rs (try_reminder srv r s)"

text \<open>The body of the outer \<^verbatim>\<open>try\<close>: \<^verbatim>\<open>if (error) throw error\<close>, then the loop.\<close>

definition process_try :: "server \<Rightarrow> store \<Rightarrow> js_error + store \<times> event list" where
  "process_try srv st =
     (case due_query_error srv of
        Some e \<Rightarrow> Inl (StoreError e)
      | None \<Rightarrow>
          (let dueReminders = select_due st (now srv)
           in if dueReminders = [] then Inr (st, [])
              else Inr (process_each srv dueReminders (st, []))))"

text \<open>
  \<^verbatim>\<open>processScheduledReminders(supabase)\<close>: the first component is how the call ends for
  its caller, \<open>Inr ()\<close> for a normal return and \<open>Inl\<close> for a throw. The outer
  \<^verbatim>\<open>catch\<close> logs whatever the body throws.
\<close>

definition processScheduledReminders ::
    "server \<Rightarrow> store \<Rightarrow> (js_error + unit) \<times> store \<times> event list" where
  "processScheduledReminders srv st =
     (case process_try srv st of
        Inl e \<Rightarrow> (Inr (), st, [ConsoleError (ErrorProcessingScheduledReminders e)])
      | Inr s \<Rightarrow> (Inr (), fst s, snd s))"

subsection \<open>The trigger\<close>

datatype response = Json200Success | Json401Unauthorized | Json500Failed

text \<open>
  The \<^verbatim>\<open>POST\<close> handler of the route, for a request whose \<^verbatim>\<open>x-api-key\<close> header is
  \<open>apiKey\<close>. Its \<^verbatim>\<open>catch\<close> answers with status 500 when the call of the processor
  throws; building the client of the store is taken to succeed.
\<close>

definition POST :: "server \<Rightarrow> string option \<Rightarrow> store \<Rightarrow> response \<times> store \<times> event list" where
  "POST srv apiKey st =
     (if truthy (API_SECRET_KEY srv) \<noteq> None \<and> apiKey \<noteq> API_SECRET_KEY srv
      then (Json401Unauthorized, st, [])
      else
        (case processScheduledReminders srv st of
           (Inl e, st', evs) \<Rightarrow>
             (Json500Failed, st', evs @ [ConsoleError (ErrorProcessingReminders e)])
         | (Inr u, st', evs) \<Rightarrow> (Json200Success, st', evs)))"

subsection \<open>The invoice queries that flip sent invoices to overdue\<close>

text \<open>
  The two queries run in a browser: its time zone, the reading of \<^verbatim>\<open>Date.now()\<close> inside
  \<^verbatim>\<open>isPast\<close> when the invoice with a given id is looked at, the \<^verbatim>\<open>error\<close> of the
  select, and whether the store applies the update of an invoice (its \<^verbatim>\<open>error\<close> is set
  when it does not).
\<close>

record browser =
  browser_zone :: int
  date_now :: "string \<Rightarrow> int"
  invoice_query_error :: "string option"
  invoice_update_applied :: "string \<Rightarrow> bool"

text \<open>\<^verbatim>\<open>invoice.status === "sent" && isPast(parseISO(invoice.due_date))\<close>.\<close>

definition sent_and_past :: "browser \<Rightarrow> invoice \<Rightarrow> bool" where
  "sent_and_past br i =
     (invoice_status i = Sent
      \<and> parseISO (browser_zone br) (due_date i) < date_now br (invoice_id i))"

definition set_overdue :: "invoice_with_client \<Rightarrow> invoice_with_client" where
  "set_overdue iv = iv\<lparr>inv := (inv iv)\<lparr>invoice_status := Overdue\<rparr>\<rparr>"

text \<open>
  \<^verbatim>\<open>supabase.from("invoices").update({ status: "overdue" }).eq("id", id)\<close>: the call,
  and the rows of the store after it.
\<close>

definition update_invoice :: "browser \<Rightarrow> string \<Rightarrow> store \<times> event list \<Rightarrow> store \<times> event list" where
  "update_invoice br iid s =
     ((if invoice_update_applied br iid
       then (fst s)\<lparr>invoices :=
               map (\<lambda>i. if invoice_id i = iid then i\<lparr>invoice_status := Overdue\<rparr> else i)
                 (invoices (fst s))\<rparr>
       else fst s),
      snd s @ [UpdateInvoice iid Overdue])"

text \<open>
  The \<^verbatim>\<open>queryFn\<close> of the single invoice (\<^verbatim>\<open>InvoiceDetail\<close>): the select with
  \<^verbatim>\<open>.single()\<close> fails unless exactly one row matches; the status of the returned
  invoice is overwritten only \<^verbatim>\<open>if (!updateError)\<close>.
\<close>

definition invoice_queryFn ::
    "browser \<Rightarrow> string \<Rightarrow> string \<Rightarrow> store
      \<Rightarrow> (js_error + invoice_with_client) \<times> store \<times> event list" where
  "invoice_queryFn br userId invoiceId st =
     (case invoice_query_error br of
        Some e \<Rightarrow> (Inl (StoreError e), st, [])
      | None \<Rightarrow>
          (case filter (\<lambda>i. invoice_id i = invoiceId \<and> invoice_user_id i = userId) (invoices st) of
             [i] \<Rightarrow>
               (let data = embed_client st i
                in if sent_and_past br i
                   then (let s = update_invoice br invoiceId (st, [])
                         in (Inr (if invoice_update_applied br invoiceId
                                  then set_overdue data else data),
                             fst s, snd s))
                   else (Inr data, st, []))
           | _ \<Rightarrow> (Inl (StoreError ''PGRST116''), st, [])))"

text \<open>
  The \<^verbatim>\<open>queryFn\<close> of the invoice list (\<^verbatim>\<open>InvoiceList\<close>; the dashboard has the same
  one): every sent invoice past its due date is returned as overdue, and one update is
  sent for each invoice whose status differs from the fetched one. The results of the
  updates are not looked at. The rows come in the order of the store.
\<close>

fun update_each :: "browser \<Rightarrow> invoice_with_client list \<Rightarrow> store \<times> event list \<Rightarrow> store \<times> event list" where
  "update_each br [] s = s"
| "update_each br (iv # ivs) s = update_each br ivs (update_invoice br (invoice_id (inv iv)) s)"

definition invoices_queryFn ::
    "browser \<Rightarrow> string \<Rightarrow> store \<Rightarrow> (js_error + invoice_with_client list) \<times> store \<times> event list" where
  "invoices_queryFn br userId st =
     (case invoice_query_error br of
        Some e \<Rightarrow> (Inl (StoreError e), st, [])
      | None \<Rightarrow>
          (let data = map (embed_client st) (filter (\<lambda>i. invoice_user_id i = userId) (invoices st));
               updatedInvoices =
                 map (\<lambda>iv. if sent_and_past br (inv iv) then set_overdue iv else iv) data;
               overdueInvoices =
                 map fst (filter (\<lambda>(u, d). invoice_status (inv u) \<noteq> invoice_status (inv d))
                            (zip updatedInvoices data));
               s = update_each br overdueInvoices (st, [])
           in (Inr updatedInvoices, fst s, snd s)))"

subsection \<open>The rendering scenario\<close>

definition scenario_text :: string where
  "scenario_text =
     ''{client_name}, invoice {invoice_number} for {amount} was due {due_date} ({days_overdue} days overdue)''"

definition scenario_expected :: string where
  "scenario_expected =
     ''Acme, invoice INV-001 for USD 150.00 was due January 1, 2025 (9 days overdue)''"

definition scenario_west :: string where
  "scenario_west =
     ''Acme, invoice INV-001 for USD 150.00 was due December 31, 2024 (9 days overdue)''"

definition scenario_client :: client where
  "scenario_client = \<lparr>client_id = ''c1'', client_name = ''Acme'', client_email = ''billing@acme.test''\<rparr>"

definition scenario_invoice :: invoice where
  "scenario_invoice =
     \<lparr>invoice_id = ''i1'', invoice_user_id = ''u1'', invoice_client_id = ''c1'',
      invoice_number = ''INV-001'', due_date = IsoDate 2025 1 1, amount = 150,
      currency = ''USD'', invoice_status = Sent\<rparr>"

definition scenario_template :: message_template where
  "scenario_template = \<lparr>template_id = ''t1'', subject = scenario_text, body = scenario_text\<rparr>"

definition scenario_preview_west :: string where
  "scenario_preview_west =
     ''Acme, invoice INV-001 for USD 150.00 was due January 1, 2025 (8 days overdue)''"

text \<open>Five hours west of UTC, in milliseconds.\<close>

definition utc_minus_5 :: int where
  "utc_minus_5 = - 18000000"

subsection \<open>Reading a run\<close>

text \<open>
  The store and the calls that one run of the processor leaves behind, the rows of the
  reminders table with a given id, and the calls and log lines that are about a given
  reminder.
\<close>

definition store_after :: "server \<Rightarrow> store \<Rightarrow> store" where
  "store_after srv st = fst (snd (processScheduledReminders srv st))"

definition events_of :: "server \<Rightarrow> store \<Rightarrow> event list" where
  "events_of srv st = snd (snd (processScheduledReminders srv st))"

definition rows_with_id :: "store \<Rightarrow> string \<Rightarrow> reminder list" where
  "rows_with_id st rid = filter (\<lambda>r. reminder_id r = rid) (reminders st)"

fun about :: "string \<Rightarrow> event \<Rightarrow> bool" where
  "about rid (SendEmailCall x c res) = (x = rid)"
| "about rid (UpdateReminder x p) = (x = rid)"
| "about rid (ConsoleError (FailedToSendReminder x m)) = (x = rid)"
| "about rid (ConsoleError (ErrorProcessingReminder x e)) = (x = rid)"
| "about rid e = False"

definition events_about :: "string \<Rightarrow> event list \<Rightarrow> event list" where
  "events_about rid evs = filter (about rid) evs"

fun is_send :: "event \<Rightarrow> bool" where
  "is_send (SendEmailCall x c res) = True"
| "is_send e = False"

fun is_update :: "event \<Rightarrow> bool" where
  "is_update (UpdateReminder x p) = True"
| "is_update e = False"

text \<open>
  The \<^verbatim>\<open>content\<close> that the processor hands to \<^verbatim>\<open>sendEmail\<close> for an invoice with client
  \<open>c\<close> once the template has rendered to the pair \<open>sb\<close>.
\<close>

definition content_for ::
    "store \<Rightarrow> invoice_with_client \<Rightarrow> client \<Rightarrow> string \<times> string \<Rightarrow> email_content" where
  "content_for st iv c sb =
     \<lparr>to = client_email c, email_subject = fst sb, email_body = snd sb,
      fromName = truthy (Option.bind (single_user st (invoice_user_id (inv iv))) full_name),
      fromEmail = None,
      replyTo = truthy (map_option user_email (single_user st (invoice_user_id (inv iv))))\<rparr>"

text \<open>
  A reminder of the store that the run selects: the select succeeds, ids are unique (the
  id is the primary key of the table), and the reminder is pending and scheduled at or
  before the reading \<open>now\<close>.
\<close>

definition due_in :: "server \<Rightarrow> store \<Rightarrow> reminder \<Rightarrow> bool" where
  "due_in srv st r =
     (due_query_error srv = None \<and> distinct (map reminder_id (reminders st))
      \<and> r \<in> set (reminders st) \<and> is_due (now srv) r)"

text \<open>What the renderer returns when template, invoice and client are there.\<close>

definition rendered :: "int \<Rightarrow> int \<Rightarrow> message_template \<Rightarrow> invoice \<Rightarrow> client \<Rightarrow> string \<times> string" where
  "rendered tz clock t i c =
     (case replace_each (email_replacements tz clock i c) (subject t, body t) of
        (s, b) \<Rightarrow> (s, replace_all [CHR 0x0A] ''<br />'' b))"

subsection \<open>A small store and its servers\<close>

text \<open>
  Four reminders: one for the unpaid invoice of the scenario, one for a paid invoice, one
  whose template is gone, and one that is scheduled for later. The server reads its clock
  at midnight UTC of 10 January 2025, again 700 ms later in the renderer and 1500 ms later
  when it marks a reminder as sent.
\<close>

definition paid_invoice :: invoice where
  "paid_invoice = scenario_invoice\<lparr>invoice_id := ''i2'', invoice_number := ''INV-002'',
                                  invoice_status := Paid\<rparr>"

definition example_user :: user where
  "example_user = \<lparr>user_id = ''u1'', user_email = ''owner@studio.test'', full_name = Some ''Studio''\<rparr>"

definition reminder_unpaid :: reminder where
  "reminder_unpaid =
     \<lparr>reminder_id = ''r1'', reminder_invoice_id = ''i1'', reminder_template_id = ''t1'',
      scheduled_date = 1736400000000, reminder_status = Pending, sent_at = None\<rparr>"

definition reminder_paid :: reminder where
  "reminder_paid = reminder_unpaid\<lparr>reminder_id := ''r2'', reminder_invoice_id := ''i2''\<rparr>"

definition reminder_no_template :: reminder where
  "reminder_no_template = reminder_unpaid\<lparr>reminder_id := ''r3'', reminder_template_id := ''t9''\<rparr>"

definition reminder_later :: reminder where
  "reminder_later = reminder_unpaid\<lparr>reminder_id := ''r4'', scheduled_date := 1740000000000\<rparr>"

definition example_store :: store where
  "example_store =
     \<lparr>users = [example_user], clients = [scenario_client],
      invoices = [scenario_invoice, paid_invoice],
      message_templates = [scenario_template],
      reminders = [reminder_no_template, reminder_unpaid, reminder_paid, reminder_later]\<rparr>"

definition example_server :: server where
  "example_server =
     \<lparr>SENDGRID_API_KEY = Some ''SG.key'', EMAIL_FROM = None, API_SECRET_KEY = None,
      time_zone = 0, now = 1736467200000, today = (\<lambda>rid. 1736467200700),
      sent_now = (\<lambda>rid. 1736467201500), due_query_error = None,
      mail_send = (\<lambda>rid. Delivered), update_applied = (\<lambda>rid. True)\<rparr>"

definition rejecting_server :: server where
  "rejecting_server = example_server\<lparr>mail_send := (\<lambda>rid. Rejected ''Forbidden'')\<rparr>"

definition failing_query_server :: server where
  "failing_query_server = example_server\<lparr>due_query_error := Some ''connection refused''\<rparr>"

text \<open>The content of the email for the unpaid reminder of the example.\<close>

definition example_content :: email_content where
  "example_content =
     content_for example_store \<lparr>inv = scenario_invoice, client = Some scenario_client\<rparr>
       scenario_client
       (rendered 0 1736467200700 scenario_template scenario_invoice scenario_client)"

text \<open>
  A browser in UTC, at midnight UTC of 10 January 2025, whose updates the store does not
  apply.
\<close>

definition offline_browser :: browser where
  "offline_browser =
     \<lparr>browser_zone = 0, date_now = (\<lambda>iid. 1736467200000), invoice_query_error = None,
      invoice_update_applied = (\<lambda>iid. False)\<rparr>"

subsection \<open>The days-overdue number of the specification\<close>

text \<open>
  The number that a decimal numeral denotes, read digit by digit from the left.
\<close>

definition digit_value :: "char \<Rightarrow> nat" where
  "digit_value ch = of_char ch - 48"

definition decimal_value :: "string \<Rightarrow> nat" where
  "decimal_value s = foldl (\<lambda>a ch. 10 * a + digit_value ch) 0 s"

text \<open>
  The specification's entry for \<^verbatim>\<open>{days_overdue}\<close>, in its own words:
  \<^verbatim>\<open>max(0, floor((now - due_date) in whole days))\<close>, on two instants in milliseconds, a
  day being 86400000 of them and the quotient being the exact one.
\<close>

definition spec_days_overdue :: "int \<Rightarrow> int \<Rightarrow> int" where
  "spec_days_overdue clock due = max 0 \<lfloor>(of_int (clock - due) :: rat) / 86400000\<rfloor>"

subsection \<open>Texts that read the same once a token is replaced\<close>

text \<open>
  Two texts read the same after the token \<open>T\<close> is replaced by \<open>N\<close> when, placed between
  the same two texts, they give the same result of that replacement.
\<close>

definition same_after :: "string \<Rightarrow> string \<Rightarrow> string \<Rightarrow> string \<Rightarrow> bool" where
  "same_after T N x y =
     (\<forall>a b. replace_all T N (a @ x @ b) = replace_all T N (a @ y @ b))"

section \<open>Properties\<close>

subsection \<open>Evaluation of the scenario\<close>

lemma div_between:
  fixes x m a :: int
  assumes "0 < m" "a * m \<le> x" "x < (a + 1) * m"
  shows "x div m = a"
proof (rule int_div_pos_eq)
  show "x = m * a + (x - a * m)" by simp
  show "0 \<le> x - a * m" using assms by simp
  show "x - a * m < m" using assms by (simp add: algebra_simps)
qed

lemma date_utc_2025_1_1: "date_utc (IsoDate 2025 1 1) = 20089 * msPerDay"
  by code_simp

lemma date_utc_2025_1_10: "date_utc (IsoDate 2025 1 10) = 20098 * msPerDay"
  by code_simp

lemma date_utc_2025_1_11: "date_utc (IsoDate 2025 1 11) = 20099 * msPerDay"
  by code_simp

lemma scenario_due_date:
  assumes "0 \<le> tz" "tz < msPerDay"
  shows "toLocaleDateString tz (date_utc (IsoDate 2025 1 1)) = ''January 1, 2025''"
proof -
  have d: "(20089 * msPerDay + tz) div msPerDay = 20089"
    using assms by (intro div_between) (simp_all add: msPerDay_def)
  have "toLocaleDateString tz (date_utc (IsoDate 2025 1 1)) =
      (case civil_of_day 20089 of
         (y, m, d) \<Rightarrow> month_name m @ '' '' @ dec d @ '', '' @ dec (printed_year y))"
    unfolding toLocaleDateString_def local_civil_def date_utc_2025_1_1 d ..
  also have "\<dots> = ''January 1, 2025''"
    by code_simp
  finally show ?thesis .
qed

lemma scenario_due_date_west:
  "toLocaleDateString utc_minus_5 (date_utc (IsoDate 2025 1 1)) = ''December 31, 2024''"
  by code_simp

lemma scenario_days:
  assumes "date_utc (IsoDate 2025 1 10) \<le> clock" "clock < date_utc (IsoDate 2025 1 11)"
  shows "days_overdue_text clock (date_utc (IsoDate 2025 1 1)) = ''9''"
proof -
  have "(clock - 20089 * msPerDay) div msPerDay = 9"
    using assms unfolding date_utc_2025_1_10 date_utc_2025_1_11
    by (intro div_between) (simp_all add: msPerDay_def)
  then have "days_overdue_text clock (date_utc (IsoDate 2025 1 1)) = dec (nat 9)"
    unfolding days_overdue_text_def date_utc_2025_1_1 by simp
  also have "\<dots> = ''9''" by code_simp
  finally show ?thesis .
qed

lemma toFixed2_150: "toFixed2 150 = ''150.00''"
proof -
  have "\<lfloor>\<bar>150::rat\<bar> * 100 + 1 / 2\<rfloor> = 15000"
    by (rule floor_unique) simp_all
  then have n: "nat \<lfloor>\<bar>150::rat\<bar> * 100 + 1 / 2\<rfloor> = 15000"
    by simp
  have "toFixed2 150 = dec 150 @ ''.'' @ [digit_char 0, digit_char 0]"
    unfolding toFixed2_def Let_def n by simp
  also have "\<dots> = ''150.00''"
    by code_simp
  finally show ?thesis .
qed

lemma scenario_replace:
  "replace_each
     [(''{invoice_number}'', ''INV-001''), (''{amount}'', ''USD 150.00''),
      (''{due_date}'', ''January 1, 2025''), (''{days_overdue}'', ''9''),
      (''{client_name}'', ''Acme''), (''{user_name}'', []), (''{company_name}'', [])]
     (scenario_text, scenario_text) = (scenario_expected, scenario_expected)"
  by code_simp

lemma scenario_replace_west:
  "replace_each
     [(''{invoice_number}'', ''INV-001''), (''{amount}'', ''USD 150.00''),
      (''{due_date}'', ''December 31, 2024''), (''{days_overdue}'', ''9''),
      (''{client_name}'', ''Acme''), (''{user_name}'', []), (''{company_name}'', [])]
     (scenario_text, scenario_text) = (scenario_west, scenario_west)"
  by code_simp

lemma scenario_br: "replace_all [CHR 0x0A] ''<br />'' scenario_expected = scenario_expected"
  by code_simp

lemma scenario_br_west: "replace_all [CHR 0x0A] ''<br />'' scenario_west = scenario_west"
  by code_simp

lemma scenario_fields:
  "invoice_number scenario_invoice = ''INV-001''" "amount scenario_invoice = 150"
  "currency scenario_invoice = ''USD''" "due_date scenario_invoice = IsoDate 2025 1 1"
  "client_name scenario_client = ''Acme''"
  "subject scenario_template = scenario_text" "body scenario_template = scenario_text"
  by (simp_all add: scenario_invoice_def scenario_client_def scenario_template_def)

lemma scenario_email_west:
  "formatEmailTemplate utc_minus_5 (date_utc (IsoDate 2025 1 10)) (Some scenario_template)
       (Some \<lparr>inv = scenario_invoice, client = Some scenario_client\<rparr>)
     = Inr (scenario_west, scenario_west)"
proof -
  have "days_overdue_text (date_utc (IsoDate 2025 1 10)) (date_utc (IsoDate 2025 1 1)) = ''9''"
    by (rule scenario_days; unfold date_utc_2025_1_10 date_utc_2025_1_11)
      (simp_all add: msPerDay_def)
  then have "email_replacements utc_minus_5 (date_utc (IsoDate 2025 1 10))
               scenario_invoice scenario_client =
     [(''{invoice_number}'', ''INV-001''), (''{amount}'', ''USD'' @ '' '' @ ''150.00''),
      (''{due_date}'', ''December 31, 2024''), (''{days_overdue}'', ''9''),
      (''{client_name}'', ''Acme''), (''{user_name}'', []), (''{company_name}'', [])]"
    unfolding email_replacements_def Let_def scenario_fields toFixed2_150
      scenario_due_date_west by simp
  then show ?thesis
    by (simp del: replace_each.simps
        add: formatEmailTemplate_def scenario_fields scenario_replace_west scenario_br_west)
qed

subsection \<open>C6: the rendering scenario\<close>

text \<open>
  C6: five hours west of UTC, at midnight UTC of 10 January 2025, the renderer gives for
  the scenario a text with the due date December 31, 2024, which is not the text of the
  scenario: the due date 2025-01-01 is read as midnight UTC and printed in the zone of the
  runtime, where that instant is still the day before.
\<close>

theorem scenario_west_of_utc:
  "formatEmailTemplate utc_minus_5 (date_utc (IsoDate 2025 1 10)) (Some scenario_template)
       (Some \<lparr>inv = scenario_invoice, client = Some scenario_client\<rparr>)
     = Inr (scenario_west, scenario_west)
   \<and> scenario_west \<noteq> scenario_expected"
  using scenario_email_west by (simp add: scenario_west_def scenario_expected_def)

text \<open>
  In a runtime whose zone is UTC or less than a day east of it the renderer gives exactly
  the text of the scenario: for the template of the scenario, as subject and as body,
  against an invoice with number INV-001, amount 150.00, currency USD and due date
  2025-01-01 whose client is named Acme, at any instant of 10 January 2025 (UTC).
\<close>

theorem scenario_rendering:
  assumes i: "invoice_number i = ''INV-001''" "amount i = 150" "currency i = ''USD''"
        "due_date i = IsoDate 2025 1 1"
      and c: "client_name c = ''Acme''"
      and t: "subject t = scenario_text" "body t = scenario_text"
      and clock: "date_utc (IsoDate 2025 1 10) \<le> clock" "clock < date_utc (IsoDate 2025 1 11)"
      and tz: "0 \<le> tz" "tz < msPerDay"
  shows "formatEmailTemplate tz clock (Some t) (Some \<lparr>inv = i, client = Some c\<rparr>)
           = Inr (scenario_expected, scenario_expected)"
proof -
  have "email_replacements tz clock i c =
     [(''{invoice_number}'', ''INV-001''), (''{amount}'', ''USD'' @ '' '' @ ''150.00''),
      (''{due_date}'', ''January 1, 2025''), (''{days_overdue}'', ''9''),
      (''{client_name}'', ''Acme''), (''{user_name}'', []), (''{company_name}'', [])]"
    unfolding email_replacements_def Let_def i c toFixed2_150
      scenario_due_date [OF tz] scenario_days [OF clock] ..
  then show ?thesis
    by (simp del: replace_each.simps add: formatEmailTemplate_def t scenario_replace scenario_br)
qed

theorem scenario_rendering_witness:
  "invoice_number scenario_invoice = ''INV-001'' \<and> amount scenario_invoice = 150
   \<and> currency scenario_invoice = ''USD'' \<and> due_date scenario_invoice = IsoDate 2025 1 1
   \<and> client_name scenario_client = ''Acme''
   \<and> subject scenario_template = scenario_text \<and> body scenario_template = scenario_text
   \<and> date_utc (IsoDate 2025 1 10) \<le> date_utc (IsoDate 2025 1 10)
   \<and> date_utc (IsoDate 2025 1 10) < date_utc (IsoDate 2025 1 11)
   \<and> (0::int) \<le> 0 \<and> 0 < msPerDay
   \<and> formatEmailTemplate 0 (date_utc (IsoDate 2025 1 10)) (Some scenario_template)
         (Some \<lparr>inv = scenario_invoice, client = Some scenario_client\<rparr>)
       = Inr (scenario_expected, scenario_expected)"
proof -
  have lt: "date_utc (IsoDate 2025 1 10) < date_utc (IsoDate 2025 1 11)"
    unfolding date_utc_2025_1_10 date_utc_2025_1_11 by (simp add: msPerDay_def)
  have pos: "0 < msPerDay"
    by (simp add: msPerDay_def)
  show ?thesis
    using scenario_rendering [of scenario_invoice scenario_client scenario_template
        "date_utc (IsoDate 2025 1 10)" 0, OF scenario_fields order_refl lt order_refl pos]
      scenario_fields lt pos
    by simp
qed

subsection \<open>Replacing one token in a text without other braces\<close>

lemma digit_char_values:
  "digit_char 0 = CHR ''0''" "digit_char 1 = CHR ''1''" "digit_char 2 = CHR ''2''"
  "digit_char 3 = CHR ''3''" "digit_char 4 = CHR ''4''" "digit_char 5 = CHR ''5''"
  "digit_char 6 = CHR ''6''" "digit_char 7 = CHR ''7''" "digit_char 8 = CHR ''8''"
  "digit_char 9 = CHR ''9''"
  by code_simp+

lemma digit_char_cases:
  assumes "k < 10"
  shows "digit_char k \<in> set ''0123456789''"
proof -
  from assms consider "k = 0" | "k = 1" | "k = 2" | "k = 3" | "k = 4" | "k = 5" | "k = 6"
    | "k = 7" | "k = 8" | "k = 9"
    by (auto simp: less_Suc_eq numeral_eq_Suc)
  then show ?thesis
    by cases (simp_all only: digit_char_values, simp_all)
qed

lemma dec_digits: "set (dec n) \<subseteq> set ''0123456789''"
proof (induction n rule: dec.induct)
  case (1 n)
  show ?case
  proof (cases "n < 10")
    case True
    then show ?thesis using digit_char_cases [of n] by (subst dec.simps) simp
  next
    case False
    have "n mod 10 < 10" by simp
    from digit_char_cases [OF this] 1 [OF False] False show ?thesis
      by (subst dec.simps) simp
  qed
qed

lemma dec_no_dollar: "CHR ''$'' \<notin> set (dec n)"
  using dec_digits [of n] by auto

lemma dec_no_brace: "CHR ''{'' \<notin> set (dec n)"
  using dec_digits [of n] by auto

lemma get_substitution_plain:
  "CHR ''$'' \<notin> set v \<Longrightarrow> get_substitution m p q v = v"
  by (induction m p q v rule: get_substitution.induct) auto

lemma replace_from_no_first:
  assumes "k \<notin> set s"
  shows "replace_from (k # ks) v p s = s"
  using assms by (induction s arbitrary: p) auto

lemma replace_from_one_first:
  assumes "k \<notin> set l" "k \<notin> set m" "\<not> starts_with ks m"
  shows "replace_from (k # ks) v p (l @ k # m) = l @ k # m"
  using assms by (induction l arbitrary: p) (auto simp: replace_from_no_first)

lemma starts_with_append: "starts_with k (k @ r)"
  by (induction k) auto

lemma replace_from_here:
  assumes "k \<notin> set l" "k \<notin> set r" "CHR ''$'' \<notin> set v"
  shows "replace_from (k # ks) v p (l @ (k # ks) @ r) = l @ v @ r"
  using assms
proof (induction l arbitrary: p)
  case Nil
  have "starts_with ks (ks @ r)" by (rule starts_with_append)
  with Nil show ?case
    by (simp add: get_substitution_plain replace_from_no_first)
next
  case (Cons a l)
  then show ?case by auto
qed


lemma replace_all_other_token:
  assumes "CHR ''{'' \<notin> set l" "CHR ''{'' \<notin> set r"
      and "\<not> starts_with ks (''days_overdue}'' @ r)"
  shows "replace_all (CHR ''{'' # ks) v (l @ ''{days_overdue}'' @ r) = l @ ''{days_overdue}'' @ r"
proof -
  have "CHR ''{'' \<notin> set (''days_overdue}'' @ r)"
    using assms(2) by simp
  from replace_from_one_first [OF assms(1) this assms(3)] show ?thesis
    by (simp add: replace_all_def)
qed

lemma replace_all_this_token:
  assumes "CHR ''{'' \<notin> set l" "CHR ''{'' \<notin> set r" "CHR ''$'' \<notin> set v"
  shows "replace_all ''{days_overdue}'' v (l @ ''{days_overdue}'' @ r) = l @ v @ r"
  unfolding replace_all_def by (rule replace_from_here [OF assms])

lemma replace_all_no_brace:
  assumes "CHR ''{'' \<notin> set s"
  shows "replace_all (CHR ''{'' # ks) v s = s"
  unfolding replace_all_def by (rule replace_from_no_first [OF assms])

lemma days_overdue_text_max:
  "days_overdue_text clock due = dec (nat (max 0 ((clock - due) div msPerDay)))"
  by (simp add: days_overdue_text_def Let_def max_def)

lemma days_overdue_text_future:
  assumes "clock \<le> due"
  shows "days_overdue_text clock due = ''0''"
proof -
  have "(clock - due) div msPerDay \<le> 0 div msPerDay"
    using assms by (intro zdiv_mono1) (simp_all add: msPerDay_def)
  then have "(clock - due) div msPerDay \<le> 0"
    by simp
  then have "days_overdue_text clock due = dec 0"
    by (simp add: days_overdue_text_def Let_def)
  also have "\<dots> = ''0''" by code_simp
  finally show ?thesis .
qed

lemma subject_with_days_overdue:
  assumes l: "CHR ''{'' \<notin> set l" and r: "CHR ''{'' \<notin> set r"
  shows "fst (replace_each (email_replacements tz clock i c) (l @ ''{days_overdue}'' @ r, b))
           = l @ days_overdue_text clock (date_utc (due_date i)) @ r"
proof -
  define n where "n = days_overdue_text clock (date_utc (due_date i))"
  define s0 where "s0 = l @ ''{days_overdue}'' @ r"
  have n_plain: "CHR ''$'' \<notin> set n" "CHR ''{'' \<notin> set n"
    unfolding n_def days_overdue_text_def Let_def by (rule dec_no_dollar, rule dec_no_brace)
  have k1: "replace_all ''{invoice_number}'' v s0 = s0" for v
    unfolding s0_def by (rule replace_all_other_token [OF l r]) simp
  have k2: "replace_all ''{amount}'' v s0 = s0" for v
    unfolding s0_def by (rule replace_all_other_token [OF l r]) simp
  have k3: "replace_all ''{due_date}'' v s0 = s0" for v
    unfolding s0_def by (rule replace_all_other_token [OF l r]) simp
  have k4: "replace_all ''{days_overdue}'' n s0 = l @ n @ r"
    unfolding s0_def by (rule replace_all_this_token [OF l r n_plain(1)])
  have plain: "CHR ''{'' \<notin> set (l @ n @ r)"
    using l r n_plain(2) by simp
  have k5: "replace_all (CHR ''{'' # ks) v (l @ n @ r) = l @ n @ r" for ks v
    by (rule replace_all_no_brace [OF plain])
  have "fst (replace_each (email_replacements tz clock i c) (s0, b)) = l @ n @ r"
    unfolding email_replacements_def Let_def replace_each.simps n_def [symmetric]
    unfolding k1 k2 k3 k4 k5 by simp
  then show ?thesis
    unfolding s0_def n_def .
qed

lemma days_overdue_entry:
  "map_of (email_replacements tz clock i c) ''{days_overdue}''
     = Some (days_overdue_text clock (date_utc (due_date i)))"
  by (simp add: email_replacements_def Let_def)

subsection \<open>The days-overdue token in any template\<close>

lemma starts_with_decomp: "starts_with k s \<Longrightarrow> s = k @ drop (length k) s"
  by (induction k s rule: starts_with.induct) auto

lemma starts_with_cut:
  "x \<notin> set ks \<Longrightarrow> starts_with ks (a @ x # rest) = starts_with ks a"
proof (induction ks arbitrary: a)
  case Nil
  then show ?case by simp
next
  case (Cons k ks)
  then show ?case by (cases a) auto
qed

lemma replace_from_match:
  assumes "K \<noteq> []"
  shows "replace_from K v p (K @ r)
           = get_substitution K p r v @ replace_from K v (p @ K) r"
proof -
  obtain k ks where K: "K = k # ks" using assms by (cases K) auto
  have "starts_with ks (ks @ r)" by (rule starts_with_append)
  then show ?thesis by (simp add: K)
qed

lemma replace_from_skip:
  "\<not> starts_with K (c # cs) \<Longrightarrow>
     replace_from K v p (c # cs) = c # replace_from K v (p @ [c]) cs"
  by simp

lemma replace_from_skip_many:
  "k \<notin> set m \<Longrightarrow> replace_from (k # kk) v p (m @ s) = m @ replace_from (k # kk) v (p @ m) s"
  by (induction m arbitrary: p) auto

lemma replace_from_plain:
  assumes "CHR ''$'' \<notin> set v"
  shows "replace_from K v p s = replace_all K v s"
proof (induction "length s" arbitrary: s p rule: less_induct)
  case less
  show ?case
  proof (cases s)
    case Nil
    then show ?thesis by (simp add: replace_all_def)
  next
    case (Cons c cs)
    show ?thesis
    proof (cases "K \<noteq> [] \<and> starts_with K (c # cs)")
      case True
      define r where "r = drop (length K) s"
      have s: "s = K @ r"
        unfolding r_def by (rule starts_with_decomp) (use True Cons in simp)
      have "length K \<noteq> 0"
        using True by simp
      then have len: "length r < length s"
        by (subst s) simp
      have "replace_from K v p s = v @ replace_from K v (p @ K) r"
        using replace_from_match [of K v p r] True
        by (subst s) (simp add: get_substitution_plain [OF assms])
      moreover have "replace_all K v s = v @ replace_from K v K r"
        using replace_from_match [of K v "[]" r] True
        by (subst s) (simp add: replace_all_def get_substitution_plain [OF assms])
      ultimately show ?thesis
        using less [OF len] by simp
    next
      case False
      then have "replace_from K v p s = c # replace_from K v (p @ [c]) cs"
        and "replace_all K v s = c # replace_from K v [c] cs"
        unfolding Cons replace_all_def by auto
      then show ?thesis
        using less [of cs] Cons by simp
    qed
  qed
qed

lemma replace_all_nil: "replace_all K v [] = []"
  by (simp add: replace_all_def)

lemma replace_all_match:
  assumes "K \<noteq> []" "CHR ''$'' \<notin> set v"
  shows "replace_all K v (K @ r) = v @ replace_all K v r"
proof -
  have a: "replace_from K v [] (K @ r) = v @ replace_from K v ([] @ K) r"
    by (simp only: replace_from_match [OF assms(1)] get_substitution_plain [OF assms(2)])
  have b: "replace_from K v ([] @ K) r = replace_all K v r"
    by (rule replace_from_plain [OF assms(2)])
  show ?thesis
    unfolding replace_all_def [of K v "K @ r"] a b ..
qed

lemma replace_all_skip:
  assumes "\<not> starts_with K (c # cs)" "CHR ''$'' \<notin> set v"
  shows "replace_all K v (c # cs) = c # replace_all K v cs"
proof -
  have a: "replace_from K v [] (c # cs) = c # replace_from K v ([] @ [c]) cs"
    by (rule replace_from_skip [OF assms(1)])
  have b: "replace_from K v ([] @ [c]) cs = replace_all K v cs"
    by (rule replace_from_plain [OF assms(2)])
  show ?thesis
    unfolding replace_all_def [of K v "c # cs"] a b ..
qed

lemma replace_all_skip_many:
  assumes "k \<notin> set m" "CHR ''$'' \<notin> set v"
  shows "replace_all (k # kk) v (m @ s) = m @ replace_all (k # kk) v s"
proof -
  have a: "replace_from (k # kk) v [] (m @ s) = m @ replace_from (k # kk) v ([] @ m) s"
    by (rule replace_from_skip_many [OF assms(1)])
  have b: "replace_from (k # kk) v ([] @ m) s = replace_all (k # kk) v s"
    by (rule replace_from_plain [OF assms(2)])
  show ?thesis
    unfolding replace_all_def [of "k # kk" v "m @ s"] a b ..
qed

text \<open>A text splits where a character follows that the rest of the key does not hold.\<close>

lemma replace_all_split:
  assumes x: "x \<notin> set tk" and v: "CHR ''$'' \<notin> set v"
  shows "replace_all (k # tk) v (a @ x # rest)
           = replace_all (k # tk) v a @ replace_all (k # tk) v (x # rest)"
proof (induction "length a" arbitrary: a rule: less_induct)
  case less
  show ?case
  proof (cases a)
    case Nil
    then show ?thesis by (simp add: replace_all_nil)
  next
    case (Cons c cs)
    show ?thesis
    proof (cases "starts_with (k # tk) a")
      case True
      define r where "r = drop (length (k # tk)) a"
      have a: "a = (k # tk) @ r"
        unfolding r_def by (rule starts_with_decomp [OF True])
      have len: "length r < length a"
        by (subst a) simp
      have "replace_all (k # tk) v (a @ x # rest)
              = v @ replace_all (k # tk) v (r @ x # rest)"
        using replace_all_match [of "k # tk" v "r @ x # rest"] v by (subst a) simp
      moreover have "replace_all (k # tk) v (r @ x # rest)
              = replace_all (k # tk) v r @ replace_all (k # tk) v (x # rest)"
        by (rule less [OF len])
      moreover have "replace_all (k # tk) v a = v @ replace_all (k # tk) v r"
        using replace_all_match [of "k # tk" v r] v by (subst a) simp
      ultimately show ?thesis by simp
    next
      case False
      then have no: "\<not> starts_with (k # tk) (c # cs @ x # rest)"
        using starts_with_cut [OF x, of cs rest] Cons by auto
      have "replace_all (k # tk) v (a @ x # rest)
              = c # replace_all (k # tk) v (cs @ x # rest)"
        using replace_all_skip [OF no v] Cons by simp
      moreover have "replace_all (k # tk) v (cs @ x # rest)
              = replace_all (k # tk) v cs @ replace_all (k # tk) v (x # rest)"
        using less [of cs] Cons by simp
      moreover have "replace_all (k # tk) v a = c # replace_all (k # tk) v cs"
        using replace_all_skip [of "k # tk" c cs v] False v Cons by simp
      ultimately show ?thesis by simp
    qed
  qed
qed

text \<open>The token and the number read the same.\<close>

lemma same_after_token:
  assumes tk: "k \<notin> set tk"
      and N: "CHR ''$'' \<notin> set N" "k \<notin> set N" "N \<noteq> []" "set N \<inter> set tk = {}"
  shows "same_after (k # tk) N (k # tk) N"
  unfolding same_after_def
proof (intro allI)
  fix a b
  obtain n ns where Ncons: "N = n # ns" using N(3) by (cases N) auto
  have n: "n \<notin> set tk" using N(4) Ncons by auto
  have "replace_all (k # tk) N (a @ (k # tk) @ b)
          = replace_all (k # tk) N a @ replace_all (k # tk) N ((k # tk) @ b)"
    using replace_all_split [OF tk N(1), of k a "tk @ b"] by simp
  moreover have "replace_all (k # tk) N ((k # tk) @ b) = N @ replace_all (k # tk) N b"
    using replace_all_match [of "k # tk" N b] N(1) by simp
  moreover have "replace_all (k # tk) N (N @ b) = N @ replace_all (k # tk) N b"
    by (rule replace_all_skip_many [OF N(2) N(1)])
  moreover have "replace_all (k # tk) N (a @ N @ b)
          = replace_all (k # tk) N a @ replace_all (k # tk) N (N @ b)"
    using replace_all_split [OF n N(1), of k a "ns @ b"] Ncons by simp
  ultimately show "replace_all (k # tk) N (a @ (k # tk) @ b) = replace_all (k # tk) N (a @ N @ b)"
    by simp
qed

lemma same_after_refl: "same_after T N x x"
  by (simp add: same_after_def)

lemma same_after_sym: "same_after T N x y \<Longrightarrow> same_after T N y x"
  by (simp add: same_after_def)

lemma same_after_trans: "same_after T N x y \<Longrightarrow> same_after T N y z \<Longrightarrow> same_after T N x z"
  by (simp add: same_after_def)

lemma same_after_append:
  assumes "same_after T N x x'" "same_after T N y y'"
  shows "same_after T N (x @ y) (x' @ y')"
  unfolding same_after_def
proof (intro allI)
  fix a b
  have "replace_all T N (a @ x @ (y @ b)) = replace_all T N (a @ x' @ (y @ b))"
    using assms(1) unfolding same_after_def by blast
  moreover have "replace_all T N ((a @ x') @ y @ b) = replace_all T N ((a @ x') @ y' @ b)"
    using assms(2) unfolding same_after_def by blast
  ultimately show "replace_all T N (a @ (x @ y) @ b) = replace_all T N (a @ (x' @ y') @ b)"
    by simp
qed

lemma same_after_Cons:
  "same_after T N y y' \<Longrightarrow> same_after T N (c # y) (c # y')"
  using same_after_append [OF same_after_refl [of T N "[c]"], of y y'] by simp

lemma same_after_result:
  "same_after T N x y \<Longrightarrow> replace_all T N x = replace_all T N y"
proof -
  assume "same_after T N x y"
  then have "replace_all T N ([] @ x @ []) = replace_all T N ([] @ y @ [])"
    unfolding same_after_def by blast
  then show ?thesis by simp
qed

text \<open>A text and the text with the token replaced read the same.\<close>

lemma same_after_replaced:
  assumes tk: "k \<notin> set tk"
      and N: "CHR ''$'' \<notin> set N" "k \<notin> set N" "N \<noteq> []" "set N \<inter> set tk = {}"
  shows "same_after (k # tk) N w (replace_all (k # tk) N w)"
proof (induction "length w" arbitrary: w rule: less_induct)
  case less
  note base = same_after_token [OF tk N]
  show ?case
  proof (cases w)
    case Nil
    then show ?thesis by (simp add: replace_all_nil same_after_refl)
  next
    case (Cons c cs)
    show ?thesis
    proof (cases "starts_with (k # tk) w")
      case True
      define r where "r = drop (length (k # tk)) w"
      have w: "w = (k # tk) @ r"
        unfolding r_def by (rule starts_with_decomp [OF True])
      have len: "length r < length w"
        by (subst w) simp
      have "same_after (k # tk) N ((k # tk) @ r) (N @ replace_all (k # tk) N r)"
        by (rule same_after_append [OF base less [OF len]])
      moreover have "replace_all (k # tk) N w = N @ replace_all (k # tk) N r"
        using replace_all_match [of "k # tk" N r] N(1) by (subst w) simp
      ultimately show ?thesis
        using w by simp
    next
      case False
      have "same_after (k # tk) N (c # cs) (c # replace_all (k # tk) N cs)"
        using less [of cs] Cons by (intro same_after_Cons) simp
      moreover have "replace_all (k # tk) N w = c # replace_all (k # tk) N cs"
        using replace_all_skip [of "k # tk" c cs N] False N(1) Cons by simp
      ultimately show ?thesis
        using Cons by simp
    qed
  qed
qed

lemma same_after_get_substitution:
  assumes "same_after T N p p'" "same_after T N q q'"
  shows "same_after T N (get_substitution K p q v) (get_substitution K p' q' v)"
proof (induction v rule: induct_list012)
  case 1
  show ?case by (simp add: same_after_refl)
next
  case (2 c)
  show ?case by (simp add: same_after_refl)
next
  case (3 c d t)
  note same_after_Cons [intro!] same_after_refl [intro!]
  from 3 assms show ?case
    by (auto intro!: same_after_append)
qed

text \<open>A key that starts the replaced text starts the text.\<close>

lemma starts_with_replaced:
  assumes v: "CHR ''$'' \<notin> set N" and n: "hd N \<notin> set ks" "N \<noteq> []" and k: "k \<notin> set ks"
      and sw: "starts_with ks (replace_all (k # tk) N cs)"
  shows "starts_with ks cs"
  using sw n(1) k
proof (induction cs arbitrary: ks)
  case Nil
  then show ?case by (simp add: replace_all_nil)
next
  case (Cons c cs)
  show ?case
  proof (cases ks)
    case Nil
    then show ?thesis by simp
  next
    case ks: (Cons x xs)
    show ?thesis
    proof (cases "starts_with (k # tk) (c # cs)")
      case True
      define r where "r = drop (length (k # tk)) (c # cs)"
      have w: "c # cs = (k # tk) @ r"
        unfolding r_def by (rule starts_with_decomp [OF True])
      have "replace_all (k # tk) N (c # cs) = N @ replace_all (k # tk) N r"
        using replace_all_match [of "k # tk" N r] v by (subst w) simp
      with Cons.prems(1) ks n(2) have "x = hd N"
        by (cases N) auto
      with Cons.prems(2) ks show ?thesis by simp
    next
      case False
      have "replace_all (k # tk) N (c # cs) = c # replace_all (k # tk) N cs"
        by (rule replace_all_skip [OF False v])
      with Cons.prems ks have "x = c" "starts_with xs (replace_all (k # tk) N cs)"
        "hd N \<notin> set xs" "k \<notin> set xs"
        by auto
      with Cons.IH [of xs] ks show ?thesis by simp
    qed
  qed
qed

text \<open>
  Replacing another key first, in the text or in the text with the token replaced, gives
  texts that read the same.
\<close>

lemma replace_from_same_after:
  assumes tk: "k \<notin> set tk" and kk: "k \<notin> set kk"
      and N: "CHR ''$'' \<notin> set N" "k \<notin> set N" "N \<noteq> []" "set N \<inter> set tk = {}"
        "set N \<inter> set kk = {}"
      and apart: "\<And>r. \<not> starts_with (k # kk) ((k # tk) @ r)"
        "\<And>r. \<not> starts_with (k # tk) ((k # kk) @ r)"
      and p: "same_after (k # tk) N p p'"
  shows "same_after (k # tk) N (replace_from (k # kk) v p s)
           (replace_from (k # kk) v p' (replace_all (k # tk) N s))"
  using p
proof (induction "length s" arbitrary: s p p' rule: less_induct)
  case less
  note base = same_after_token [OF tk N(1-4)]
  note pn = same_after_replaced [OF tk N(1-4)]
  let ?T = "k # tk" and ?K = "k # kk"
  show ?case
  proof (cases s)
    case Nil
    then show ?thesis by (simp add: replace_all_nil same_after_refl)
  next
    case (Cons c cs)
    consider (token) "starts_with ?T s" | (key) "starts_with ?K s"
      | (neither) "\<not> starts_with ?T s" "\<not> starts_with ?K s"
      by blast
    then show ?thesis
    proof cases
      case token
      define r where "r = drop (length ?T) s"
      have s: "s = ?T @ r"
        unfolding r_def by (rule starts_with_decomp [OF token])
      have len: "length r < length s"
        by (subst s) simp
      have no: "\<not> starts_with ?K (k # tk @ r)"
        using apart(1) [of r] by simp
      have l: "replace_from ?K v p s = ?T @ replace_from ?K v (p @ ?T) r"
        using replace_from_skip [OF no, of v p]
          replace_from_skip_many [OF tk, of kk v "p @ [k]" r]
        by (subst s) simp
      have rs: "replace_all ?T N s = N @ replace_all ?T N r"
        using replace_all_match [of ?T N r] N(1) by (subst s) simp
      have r: "replace_from ?K v p' (replace_all ?T N s)
                 = N @ replace_from ?K v (p' @ N) (replace_all ?T N r)"
        unfolding rs by (rule replace_from_skip_many [OF N(2)])
      have "same_after ?T N (p @ ?T) (p' @ N)"
        by (rule same_after_append [OF less.prems base])
      from less.hyps [OF len this]
      have "same_after ?T N (?T @ replace_from ?K v (p @ ?T) r)
              (N @ replace_from ?K v (p' @ N) (replace_all ?T N r))"
        by (rule same_after_append [OF base])
      then show ?thesis
        unfolding l r .
    next
      case key
      define r where "r = drop (length ?K) s"
      have s: "s = ?K @ r"
        unfolding r_def by (rule starts_with_decomp [OF key])
      have len: "length r < length s"
        by (subst s) simp
      have no: "\<not> starts_with ?T (k # kk @ r)"
        using apart(2) [of r] by simp
      have l: "replace_from ?K v p s
                 = get_substitution ?K p r v @ replace_from ?K v (p @ ?K) r"
        using replace_from_match [of ?K v p r] by (subst s) simp
      have rs: "replace_all ?T N s = ?K @ replace_all ?T N r"
        using replace_all_skip [OF no N(1)] replace_all_skip_many [OF kk N(1), of tk r]
        by (subst s) simp
      have r: "replace_from ?K v p' (replace_all ?T N s)
                 = get_substitution ?K p' (replace_all ?T N r) v
                   @ replace_from ?K v (p' @ ?K) (replace_all ?T N r)"
        unfolding rs by (rule replace_from_match) simp
      have "same_after ?T N (p @ ?K) (p' @ ?K)"
        by (rule same_after_append [OF less.prems same_after_refl])
      from less.hyps [OF len this] same_after_get_substitution [OF less.prems pn [of r]]
      show ?thesis
        unfolding l r by (intro same_after_append)
    next
      case neither
      have rs: "replace_all ?T N s = c # replace_all ?T N cs"
        using replace_all_skip [of ?T c cs N] neither(1) N(1) Cons by simp
      have hd: "hd N \<notin> set kk"
        using N(3,5) by (cases N) auto
      have no: "\<not> starts_with ?K (c # replace_all ?T N cs)"
        using neither(2) Cons starts_with_replaced [OF N(1) hd N(3) kk, of tk cs]
        by auto
      have l: "replace_from ?K v p s = c # replace_from ?K v (p @ [c]) cs"
        unfolding Cons by (rule replace_from_skip) (use neither(2) Cons in simp)
      have r: "replace_from ?K v p' (replace_all ?T N s)
                 = c # replace_from ?K v (p' @ [c]) (replace_all ?T N cs)"
        unfolding rs by (rule replace_from_skip [OF no])
      have "same_after ?T N (p @ [c]) (p' @ [c])"
        by (rule same_after_append [OF less.prems same_after_refl])
      from less.hyps [of cs, OF _ this] Cons show ?thesis
        unfolding l r by (intro same_after_Cons) simp
    qed
  qed
qed

lemma replace_all_same_after:
  assumes tk: "k \<notin> set tk" and kk: "k \<notin> set kk"
      and N: "CHR ''$'' \<notin> set N" "k \<notin> set N" "N \<noteq> []" "set N \<inter> set tk = {}"
        "set N \<inter> set kk = {}"
      and apart: "\<And>r. \<not> starts_with (k # kk) ((k # tk) @ r)"
        "\<And>r. \<not> starts_with (k # tk) ((k # kk) @ r)"
      and xy: "same_after (k # tk) N x y"
  shows "same_after (k # tk) N (replace_all (k # kk) v x) (replace_all (k # kk) v y)"
proof -
  note main = replace_from_same_after [OF tk kk N apart same_after_refl, of v "[]"]
  have eq: "replace_all (k # tk) N x = replace_all (k # tk) N y"
    by (rule same_after_result [OF xy])
  have "same_after (k # tk) N (replace_all (k # kk) v x)
          (replace_from (k # kk) v [] (replace_all (k # tk) N x))"
    unfolding replace_all_def [of "k # kk"] by (rule main)
  moreover have "same_after (k # tk) N (replace_all (k # kk) v y)
          (replace_from (k # kk) v [] (replace_all (k # tk) N y))"
    unfolding replace_all_def [of "k # kk"] by (rule main)
  ultimately show ?thesis
    unfolding eq by (blast intro: same_after_trans same_after_sym)
qed

lemma digit_value_digit_char: "n < 10 \<Longrightarrow> digit_value (digit_char n) = n"
  by (simp add: digit_value_def digit_char_def)

lemma decimal_value_snoc: "decimal_value (s @ [ch]) = 10 * decimal_value s + digit_value ch"
  by (simp add: decimal_value_def)

lemma decimal_value_dec: "decimal_value (dec n) = n"
proof (induction n rule: dec.induct)
  case (1 n)
  show ?case
  proof (cases "n < 10")
    case True
    then show ?thesis
      by (subst dec.simps) (simp add: decimal_value_def digit_value_digit_char)
  next
    case False
    have "decimal_value (dec n) = 10 * decimal_value (dec (n div 10)) + digit_value (digit_char (n mod 10))"
      using False by (subst dec.simps) (simp add: decimal_value_snoc)
    also have "\<dots> = 10 * (n div 10) + n mod 10"
      using 1 [OF False] by (simp add: digit_value_digit_char)
    finally show ?thesis by simp
  qed
qed

lemma dec_not_Nil: "dec n \<noteq> []"
  by (subst dec.simps) simp

lemma dec_zero: "dec 0 = ''0''"
  by code_simp

lemma dec_no_leading_zero: "dec n = ''0'' \<or> hd (dec n) \<noteq> CHR ''0''"
proof (induction n rule: dec.induct)
  case (1 n)
  show ?case
  proof (cases "n < 10")
    case True
    show ?thesis
    proof (cases "n = 0")
      case True
      then show ?thesis by (simp add: dec_zero)
    next
      case False
      have "digit_value (digit_char n) = n"
        using \<open>n < 10\<close> by (rule digit_value_digit_char)
      moreover have "digit_value (CHR ''0'') = 0"
        by (simp add: digit_value_def)
      ultimately have "digit_char n \<noteq> CHR ''0''"
        using False by auto
      then show ?thesis
        using \<open>n < 10\<close> by (subst (2) dec.simps) simp
    qed
  next
    case False
    have "dec (n div 10) \<noteq> ''0''"
    proof
      assume "dec (n div 10) = ''0''"
      then have "decimal_value (dec (n div 10)) = decimal_value ''0''"
        by simp
      moreover have "decimal_value ''0'' = 0"
        by (simp add: decimal_value_def digit_value_def)
      ultimately have "n div 10 = 0"
        by (simp only: decimal_value_dec)
      with False show False by simp
    qed
    with 1 [OF False] have "hd (dec (n div 10)) \<noteq> CHR ''0''"
      by simp
    moreover have "dec n = dec (n div 10) @ [digit_char (n mod 10)]"
      using False by (subst dec.simps) simp
    ultimately show ?thesis
      by (simp add: dec_not_Nil)
  qed
qed

lemma spec_days_overdue_div:
  "spec_days_overdue clock due = max 0 ((clock - due) div msPerDay)"
proof -
  have "(86400000::rat) = of_int 86400000"
    by simp
  then have "\<lfloor>(of_int (clock - due) :: rat) / 86400000\<rfloor> = (clock - due) div 86400000"
    by (simp only: floor_divide_of_int_eq)
  then show ?thesis
    by (simp add: spec_days_overdue_def msPerDay_def)
qed

lemma dec_apart:
  "set (dec n) \<inter> set ''days_overdue}'' = {}"
  "set (dec n) \<inter> set ''invoice_number}'' = {}"
  "set (dec n) \<inter> set ''amount}'' = {}"
  "set (dec n) \<inter> set ''due_date}'' = {}"
  using dec_digits [of n] by auto

text \<open>
  The three tokens that are replaced before the days-overdue token leave its occurrences
  in place, and what they put in is read like the rest of the text.
\<close>

lemma days_overdue_first:
  fixes n :: nat
  defines "N \<equiv> dec n"
  shows "replace_all ''{days_overdue}'' N
           (replace_all ''{due_date}'' v3
             (replace_all ''{amount}'' v2
               (replace_all ''{invoice_number}'' v1 s)))
       = replace_all ''{days_overdue}'' N
           (replace_all ''{due_date}'' v3
             (replace_all ''{amount}'' v2
               (replace_all ''{invoice_number}'' v1 (replace_all ''{days_overdue}'' N s))))"
proof -
  have tk: "CHR ''{'' \<notin> set ''days_overdue}''"
    by simp
  have N: "CHR ''$'' \<notin> set N" "CHR ''{'' \<notin> set N" "N \<noteq> []"
      "set N \<inter> set ''days_overdue}'' = {}"
    unfolding N_def by (rule dec_no_dollar, rule dec_no_brace, rule dec_not_Nil, rule dec_apart)
  have s0: "same_after ''{days_overdue}'' N s (replace_all ''{days_overdue}'' N s)"
    by (rule same_after_replaced [OF tk N])
  have s1: "same_after ''{days_overdue}'' N (replace_all ''{invoice_number}'' v1 s)
      (replace_all ''{invoice_number}'' v1 (replace_all ''{days_overdue}'' N s))"
  proof (rule replace_all_same_after [OF tk _ N _ _ _ s0])
    show "CHR ''{'' \<notin> set ''invoice_number}''" by simp
    show "set N \<inter> set ''invoice_number}'' = {}" unfolding N_def by (rule dec_apart)
    show "\<not> starts_with ''{invoice_number}'' (''{days_overdue}'' @ r)" for r by simp
    show "\<not> starts_with ''{days_overdue}'' (''{invoice_number}'' @ r)" for r by simp
  qed
  have s2: "same_after ''{days_overdue}'' N
      (replace_all ''{amount}'' v2 (replace_all ''{invoice_number}'' v1 s))
      (replace_all ''{amount}'' v2
         (replace_all ''{invoice_number}'' v1 (replace_all ''{days_overdue}'' N s)))"
  proof (rule replace_all_same_after [OF tk _ N _ _ _ s1])
    show "CHR ''{'' \<notin> set ''amount}''" by simp
    show "set N \<inter> set ''amount}'' = {}" unfolding N_def by (rule dec_apart)
    show "\<not> starts_with ''{amount}'' (''{days_overdue}'' @ r)" for r by simp
    show "\<not> starts_with ''{days_overdue}'' (''{amount}'' @ r)" for r by simp
  qed
  have s3: "same_after ''{days_overdue}'' N
      (replace_all ''{due_date}'' v3
         (replace_all ''{amount}'' v2 (replace_all ''{invoice_number}'' v1 s)))
      (replace_all ''{due_date}'' v3
         (replace_all ''{amount}'' v2
            (replace_all ''{invoice_number}'' v1 (replace_all ''{days_overdue}'' N s))))"
  proof (rule replace_all_same_after [OF tk _ N _ _ _ s2])
    show "CHR ''{'' \<notin> set ''due_date}''" by simp
    show "set N \<inter> set ''due_date}'' = {}" unfolding N_def by (rule dec_apart)
    show "\<not> starts_with ''{due_date}'' (''{days_overdue}'' @ r)" for r by simp
    show "\<not> starts_with ''{days_overdue}'' (''{due_date}'' @ r)" for r by simp
  qed
  show ?thesis
    by (rule same_after_result [OF s3])
qed

lemma replace_each_fold:
  "replace_each es (s, b)
     = (fold (\<lambda>(key, v). replace_all key v) es s, fold (\<lambda>(key, v). replace_all key v) es b)"
  by (induction es arbitrary: s b) auto

lemma email_text_token_first:
  "fold (\<lambda>(key, v). replace_all key v) (email_replacements tz clock i c) s
     = fold (\<lambda>(key, v). replace_all key v) (email_replacements tz clock i c)
         (replace_all ''{days_overdue}'' (days_overdue_text clock (date_utc (due_date i))) s)"
proof -
  obtain n where n: "days_overdue_text clock (date_utc (due_date i)) = dec n"
    by (simp add: days_overdue_text_def Let_def)
  show ?thesis
    unfolding email_replacements_def Let_def n
    by (simp only: fold_simps prod.case o_apply id_apply days_overdue_first [of n _ _ _ s])
qed

lemma email_text_one_token:
  assumes "CHR ''{'' \<notin> set l" "CHR ''{'' \<notin> set r"
  shows "fold (\<lambda>(key, v). replace_all key v) (email_replacements tz clock i c)
           (l @ ''{days_overdue}'' @ r)
         = l @ days_overdue_text clock (date_utc (due_date i)) @ r"
  using subject_with_days_overdue [OF assms, of tz clock i c "[]"]
  by (simp only: replace_each_fold fst_conv)

lemma br_append:
  "replace_all [CHR 0x0A] ''<br />'' (a @ b)
     = replace_all [CHR 0x0A] ''<br />'' a @ replace_all [CHR 0x0A] ''<br />'' b"
proof (cases b)
  case Nil
  then show ?thesis by (simp add: replace_all_nil)
next
  case (Cons x rest)
  show ?thesis
    unfolding Cons by (rule replace_all_split) simp_all
qed

lemma br_dec: "replace_all [CHR 0x0A] ''<br />'' (dec n) = dec n"
proof -
  have "CHR 0x0A \<notin> set (dec n)"
    using dec_digits [of n] by auto
  then show ?thesis
    unfolding replace_all_def by (rule replace_from_no_first)
qed

lemma formatEmailTemplate_fold:
  "formatEmailTemplate tz clock (Some t) (Some \<lparr>inv = i, client = Some c\<rparr>)
     = Inr (fold (\<lambda>(key, v). replace_all key v) (email_replacements tz clock i c) (subject t),
            replace_all [CHR 0x0A] ''<br />''
              (fold (\<lambda>(key, v). replace_all key v) (email_replacements tz clock i c) (body t)))"
  by (simp add: formatEmailTemplate_def replace_each_fold)

lemma scenario_due_instant: "date_utc (due_date scenario_invoice) = 1735689600000"
  unfolding scenario_fields date_utc_2025_1_1 by (simp add: msPerDay_def)

lemma scenario_nine_days:
  "days_overdue_text 1736467200000 (date_utc (due_date scenario_invoice)) = ''9''"
  unfolding scenario_fields
  by (rule scenario_days; unfold date_utc_2025_1_10 date_utc_2025_1_11) (simp_all add: msPerDay_def)

lemma scenario_eight_days:
  "days_overdue_text 1736467199999 (date_utc (due_date scenario_invoice)) = ''8''"
proof -
  have "(1736467199999 - 1735689600000) div msPerDay = 8"
    by (rule div_between) (simp_all add: msPerDay_def)
  then have "days_overdue_text 1736467199999 (date_utc (due_date scenario_invoice)) = dec (nat 8)"
    unfolding days_overdue_text_def scenario_due_instant by simp
  also have "\<dots> = ''8''" by code_simp
  finally show ?thesis .
qed

lemma email_text_plain:
  assumes "CHR ''{'' \<notin> set s"
  shows "fold (\<lambda>(key, v). replace_all key v) (email_replacements tz clock i c) s = s"
  unfolding email_replacements_def Let_def
  by (simp only: fold_simps prod.case o_apply id_apply replace_all_no_brace [OF assms])

lemma date_utc_2024_2_29: "date_utc (IsoDate 2024 2 29) = 19782 * msPerDay"
  by code_simp

lemma leap_day_due_instant:
  "date_utc (due_date (scenario_invoice\<lparr>due_date := IsoDate 2024 2 29\<rparr>)) = 1709164800000"
proof -
  have "due_date (scenario_invoice\<lparr>due_date := IsoDate 2024 2 29\<rparr>) = IsoDate 2024 2 29"
    by simp
  then show ?thesis
    by (simp only: date_utc_2024_2_29) (simp add: msPerDay_def)
qed

lemma leap_day_days:
  "days_overdue_text 1736467200000
     (date_utc (due_date (scenario_invoice\<lparr>due_date := IsoDate 2024 2 29\<rparr>))) = ''316''"
proof -
  have "(1736467200000 - 1709164800000) div msPerDay = 316"
    by (rule div_between) (simp_all add: msPerDay_def)
  then have "days_overdue_text 1736467200000
      (date_utc (due_date (scenario_invoice\<lparr>due_date := IsoDate 2024 2 29\<rparr>))) = dec (nat 316)"
    unfolding days_overdue_text_def leap_day_due_instant by simp
  also have "\<dots> = ''316''" by code_simp
  finally show ?thesis .
qed

subsection \<open>C7: the days-overdue token\<close>

text \<open>
  C7: for every template, invoice and client, in every zone and at every reading of the
  clock, the table of the renderer holds for \<^verbatim>\<open>{days_overdue}\<close> a text \<open>N\<close> such that

  \<^item> \<open>N\<close> is a decimal numeral: digits only, so without a sign, and without a leading zero;

  \<^item> the number that \<open>N\<close> denotes is \<open>max(0, floor((now - due) / one day))\<close> of the
    specification, where \<open>now\<close> is the reading of the clock in the renderer and \<open>due\<close> is
    midnight UTC of the due date;

  \<^item> rendering the template gives the subject and the body that rendering gives once \<open>N\<close>
    is written in the template in place of every occurrence of the token, in the subject
    and in the body;

  \<^item> when the template has no brace outside the occurrences of the token, the rendered
    subject and body are the template's with \<open>N\<close> in place of every occurrence, the
    newlines of the body as line breaks;

  \<^item> in particular a subject and a body that hold the token between texts without braces
    are rendered as these texts around \<open>N\<close>;

  \<^item> when the due date is not in the past, \<open>N\<close> is \<^verbatim>\<open>0\<close>.
\<close>

theorem days_overdue_rendered:
  "\<exists>N. map_of (email_replacements tz clock i c) ''{days_overdue}'' = Some N
     \<and> N \<noteq> [] \<and> set N \<subseteq> set ''0123456789'' \<and> (N = ''0'' \<or> hd N \<noteq> CHR ''0'')
     \<and> int (decimal_value N) = spec_days_overdue clock (date_utc (due_date i))
     \<and> formatEmailTemplate tz clock (Some t) (Some \<lparr>inv = i, client = Some c\<rparr>)
         = formatEmailTemplate tz clock
             (Some (t\<lparr>subject := replace_all ''{days_overdue}'' N (subject t),
                      body := replace_all ''{days_overdue}'' N (body t)\<rparr>))
             (Some \<lparr>inv = i, client = Some c\<rparr>)
     \<and> (CHR ''{'' \<notin> set (replace_all ''{days_overdue}'' N (subject t))
          \<and> CHR ''{'' \<notin> set (replace_all ''{days_overdue}'' N (body t)) \<longrightarrow>
           formatEmailTemplate tz clock (Some t) (Some \<lparr>inv = i, client = Some c\<rparr>)
             = Inr (replace_all ''{days_overdue}'' N (subject t),
                    replace_all [CHR 0x0A] ''<br />''
                      (replace_all ''{days_overdue}'' N (body t))))
     \<and> (\<forall>l r lb rb. CHR ''{'' \<notin> set (l @ r @ lb @ rb) \<longrightarrow>
           formatEmailTemplate tz clock
               (Some (t\<lparr>subject := l @ ''{days_overdue}'' @ r,
                        body := lb @ ''{days_overdue}'' @ rb\<rparr>))
               (Some \<lparr>inv = i, client = Some c\<rparr>)
             = Inr (l @ N @ r,
                    replace_all [CHR 0x0A] ''<br />'' lb @ N
                      @ replace_all [CHR 0x0A] ''<br />'' rb))
     \<and> (clock \<le> date_utc (due_date i) \<longrightarrow> N = ''0'')"
proof -
  define N where "N = days_overdue_text clock (date_utc (due_date i))"
  define n where "n = nat (max 0 ((clock - date_utc (due_date i)) div msPerDay))"
  have Nn: "N = dec n"
    unfolding N_def n_def by (rule days_overdue_text_max)
  have entry: "map_of (email_replacements tz clock i c) ''{days_overdue}'' = Some N"
    unfolding N_def by (rule days_overdue_entry)
  have shape: "N \<noteq> []" "set N \<subseteq> set ''0123456789''" "N = ''0'' \<or> hd N \<noteq> CHR ''0''"
    unfolding Nn by (rule dec_not_Nil, rule dec_digits, rule dec_no_leading_zero)
  have "int (decimal_value N) = int n"
    unfolding Nn by (simp only: decimal_value_dec)
  also have "\<dots> = spec_days_overdue clock (date_utc (due_date i))"
    unfolding n_def spec_days_overdue_div by simp
  finally have val: "int (decimal_value N) = spec_days_overdue clock (date_utc (due_date i))" .
  have every: "formatEmailTemplate tz clock (Some t) (Some \<lparr>inv = i, client = Some c\<rparr>)
         = formatEmailTemplate tz clock
             (Some (t\<lparr>subject := replace_all ''{days_overdue}'' N (subject t),
                      body := replace_all ''{days_overdue}'' N (body t)\<rparr>))
             (Some \<lparr>inv = i, client = Some c\<rparr>)"
    unfolding formatEmailTemplate_fold N_def
    using email_text_token_first [of tz clock i c "subject t"]
      email_text_token_first [of tz clock i c "body t"]
    by simp
  have only: "formatEmailTemplate tz clock (Some t) (Some \<lparr>inv = i, client = Some c\<rparr>)
             = Inr (replace_all ''{days_overdue}'' N (subject t),
                    replace_all [CHR 0x0A] ''<br />''
                      (replace_all ''{days_overdue}'' N (body t)))"
    if "CHR ''{'' \<notin> set (replace_all ''{days_overdue}'' N (subject t))
          \<and> CHR ''{'' \<notin> set (replace_all ''{days_overdue}'' N (body t))"
    unfolding every unfolding formatEmailTemplate_fold
    using that by (simp add: email_text_plain)
  have one: "formatEmailTemplate tz clock
               (Some (t\<lparr>subject := l @ ''{days_overdue}'' @ r,
                        body := lb @ ''{days_overdue}'' @ rb\<rparr>))
               (Some \<lparr>inv = i, client = Some c\<rparr>)
             = Inr (l @ N @ r,
                    replace_all [CHR 0x0A] ''<br />'' lb @ N
                      @ replace_all [CHR 0x0A] ''<br />'' rb)"
    if "CHR ''{'' \<notin> set (l @ r @ lb @ rb)" for l r lb rb
  proof -
    from that have b: "CHR ''{'' \<notin> set l" "CHR ''{'' \<notin> set r" "CHR ''{'' \<notin> set lb"
        "CHR ''{'' \<notin> set rb"
      by simp_all
    have "replace_all [CHR 0x0A] ''<br />'' (lb @ N @ rb)
            = replace_all [CHR 0x0A] ''<br />'' lb @ N @ replace_all [CHR 0x0A] ''<br />'' rb"
      unfolding br_append Nn br_dec ..
    then show ?thesis
      unfolding formatEmailTemplate_fold
      using email_text_one_token [OF b(1,2), of tz clock i c]
        email_text_one_token [OF b(3,4), of tz clock i c]
      by (simp add: N_def)
  qed
  have future: "N = ''0''" if "clock \<le> date_utc (due_date i)"
    unfolding N_def by (rule days_overdue_text_future [OF that])
  from entry shape val every only one future show ?thesis
    by blast
qed

theorem days_overdue_rendered_witness:
  "map_of (email_replacements 0 1736467200000 scenario_invoice scenario_client)
       ''{days_overdue}'' = Some ''9''
   \<and> decimal_value ''9'' = 9
   \<and> spec_days_overdue 1736467200000 (date_utc (due_date scenario_invoice)) = 9
   \<and> CHR ''{'' \<notin> set (replace_all ''{days_overdue}'' ''9'' ''{days_overdue} of {days_overdue}'')
   \<and> CHR ''{'' \<notin> set (replace_all ''{days_overdue}'' ''9'' ''{days_overdue}'')
   \<and> formatEmailTemplate 0 1736467200000
        (Some (scenario_template\<lparr>subject := ''{days_overdue} of {days_overdue}'',
                                 body := ''{days_overdue}''\<rparr>))
        (Some \<lparr>inv = scenario_invoice, client = Some scenario_client\<rparr>)
      = Inr (''9 of 9'', ''9'')
   \<and> CHR ''{'' \<notin> set (''Due '' @ '' days'' @ ''Late by '' @ (''.'' @ [CHR 0x0A] @ ''Pay now''))
   \<and> formatEmailTemplate 0 1736467200000
        (Some (scenario_template\<lparr>subject := ''Due '' @ ''{days_overdue}'' @ '' days'',
            body := ''Late by '' @ ''{days_overdue}'' @ (''.'' @ [CHR 0x0A] @ ''Pay now'')\<rparr>))
        (Some \<lparr>inv = scenario_invoice, client = Some scenario_client\<rparr>)
      = Inr (''Due 9 days'', ''Late by 9.<br />Pay now'')
   \<and> formatEmailTemplate 0 1736467199999
        (Some (scenario_template\<lparr>subject := ''Due '' @ ''{days_overdue}'' @ '' days'',
            body := ''Late by '' @ ''{days_overdue}'' @ (''.'' @ [CHR 0x0A] @ ''Pay now'')\<rparr>))
        (Some \<lparr>inv = scenario_invoice, client = Some scenario_client\<rparr>)
      = Inr (''Due 8 days'', ''Late by 8.<br />Pay now'')
   \<and> formatEmailTemplate 0 1736467200000
        (Some (scenario_template\<lparr>subject := ''Due '' @ ''{days_overdue}'' @ '' days'',
            body := ''Late by '' @ ''{days_overdue}'' @ (''.'' @ [CHR 0x0A] @ ''Pay now'')\<rparr>))
        (Some \<lparr>inv = scenario_invoice\<lparr>due_date := IsoDate 2024 2 29\<rparr>,
               client = Some scenario_client\<rparr>)
      = Inr (''Due 316 days'', ''Late by 316.<br />Pay now'')
   \<and> 1735689600000 \<le> date_utc (due_date scenario_invoice)
   \<and> formatEmailTemplate 0 1735689600000
        (Some (scenario_template\<lparr>subject := ''Due '' @ ''{days_overdue}'' @ '' days'',
            body := ''Late by '' @ ''{days_overdue}'' @ (''.'' @ [CHR 0x0A] @ ''Pay now'')\<rparr>))
        (Some \<lparr>inv = scenario_invoice, client = Some scenario_client\<rparr>)
      = Inr (''Due 0 days'', ''Late by 0.<br />Pay now'')"
proof -
  let ?l = "''Due ''" and ?r = "'' days''" and ?lb = "''Late by ''"
  let ?rb = "''.'' @ [CHR 0x0A] @ ''Pay now''"
  let ?two = "scenario_template\<lparr>subject := ''{days_overdue} of {days_overdue}'',
                                 body := ''{days_overdue}''\<rparr>"
  let ?leap = "scenario_invoice\<lparr>due_date := IsoDate 2024 2 29\<rparr>"
  have plain: "CHR ''{'' \<notin> set (?l @ ?r @ ?lb @ ?rb)"
    by simp
  have br: "replace_all [CHR 0x0A] ''<br />'' ?lb = ?lb"
    "replace_all [CHR 0x0A] ''<br />'' ?rb = ''.<br />Pay now''"
    "replace_all [CHR 0x0A] ''<br />'' ''9'' = ''9''"
    by (simp_all add: replace_all_def)
  have due: "1735689600000 \<le> date_utc (due_date scenario_invoice)"
    unfolding scenario_due_instant by simp
  have two: "replace_all ''{days_overdue}'' ''9'' ''{days_overdue} of {days_overdue}'' = ''9 of 9''"
    "replace_all ''{days_overdue}'' ''9'' ''{days_overdue}'' = ''9''"
    by (simp_all add: replace_all_def)
  have two_plain: "CHR ''{'' \<notin> set (replace_all ''{days_overdue}'' ''9'' (subject ?two))
      \<and> CHR ''{'' \<notin> set (replace_all ''{days_overdue}'' ''9'' (body ?two))"
    by (simp add: two)
  obtain N9 where N9:
    "map_of (email_replacements 0 1736467200000 scenario_invoice scenario_client)
       ''{days_overdue}'' = Some N9"
    "int (decimal_value N9)
       = spec_days_overdue 1736467200000 (date_utc (due_date scenario_invoice))"
    "CHR ''{'' \<notin> set (replace_all ''{days_overdue}'' N9 (subject ?two))
          \<and> CHR ''{'' \<notin> set (replace_all ''{days_overdue}'' N9 (body ?two)) \<longrightarrow>
       formatEmailTemplate 0 1736467200000 (Some ?two)
           (Some \<lparr>inv = scenario_invoice, client = Some scenario_client\<rparr>)
         = Inr (replace_all ''{days_overdue}'' N9 (subject ?two),
                replace_all [CHR 0x0A] ''<br />''
                  (replace_all ''{days_overdue}'' N9 (body ?two)))"
    "\<forall>l r lb rb. CHR ''{'' \<notin> set (l @ r @ lb @ rb) \<longrightarrow>
           formatEmailTemplate 0 1736467200000
               (Some (?two\<lparr>subject := l @ ''{days_overdue}'' @ r,
                        body := lb @ ''{days_overdue}'' @ rb\<rparr>))
               (Some \<lparr>inv = scenario_invoice, client = Some scenario_client\<rparr>)
             = Inr (l @ N9 @ r,
                    replace_all [CHR 0x0A] ''<br />'' lb @ N9
                      @ replace_all [CHR 0x0A] ''<br />'' rb)"
    using days_overdue_rendered [where tz = 0 and clock = 1736467200000
        and i = scenario_invoice and c = scenario_client and t = ?two]
    by blast
  have n9: "N9 = ''9''"
    using N9(1) unfolding days_overdue_entry scenario_nine_days by simp
  have v9: "decimal_value ''9'' = 9"
    by (simp add: decimal_value_def digit_value_def)
  have s9: "spec_days_overdue 1736467200000 (date_utc (due_date scenario_invoice)) = 9"
    using N9(2) unfolding n9 v9 by simp
  have t9: "formatEmailTemplate 0 1736467200000 (Some ?two)
           (Some \<lparr>inv = scenario_invoice, client = Some scenario_client\<rparr>)
         = Inr (''9 of 9'', ''9'')"
    using N9(3) two_plain unfolding n9 by (simp add: two br)
  obtain N8 where N8:
    "map_of (email_replacements 0 1736467199999 scenario_invoice scenario_client)
       ''{days_overdue}'' = Some N8"
    "\<forall>l r lb rb. CHR ''{'' \<notin> set (l @ r @ lb @ rb) \<longrightarrow>
           formatEmailTemplate 0 1736467199999
               (Some (scenario_template\<lparr>subject := l @ ''{days_overdue}'' @ r,
                        body := lb @ ''{days_overdue}'' @ rb\<rparr>))
               (Some \<lparr>inv = scenario_invoice, client = Some scenario_client\<rparr>)
             = Inr (l @ N8 @ r,
                    replace_all [CHR 0x0A] ''<br />'' lb @ N8
                      @ replace_all [CHR 0x0A] ''<br />'' rb)"
    using days_overdue_rendered [where tz = 0 and clock = 1736467199999
        and i = scenario_invoice and c = scenario_client and t = scenario_template]
    by blast
  have n8: "N8 = ''8''"
    using N8(1) unfolding days_overdue_entry scenario_eight_days by simp
  obtain N316 where N316:
    "map_of (email_replacements 0 1736467200000 ?leap scenario_client)
       ''{days_overdue}'' = Some N316"
    "\<forall>l r lb rb. CHR ''{'' \<notin> set (l @ r @ lb @ rb) \<longrightarrow>
           formatEmailTemplate 0 1736467200000
               (Some (scenario_template\<lparr>subject := l @ ''{days_overdue}'' @ r,
                        body := lb @ ''{days_overdue}'' @ rb\<rparr>))
               (Some \<lparr>inv = ?leap, client = Some scenario_client\<rparr>)
             = Inr (l @ N316 @ r,
                    replace_all [CHR 0x0A] ''<br />'' lb @ N316
                      @ replace_all [CHR 0x0A] ''<br />'' rb)"
    using days_overdue_rendered [where tz = 0 and clock = 1736467200000
        and i = ?leap and c = scenario_client and t = scenario_template]
    by blast
  have n316: "N316 = ''316''"
    using N316(1) unfolding days_overdue_entry leap_day_days by simp
  obtain N0 where N0:
    "1735689600000 \<le> date_utc (due_date scenario_invoice) \<longrightarrow> N0 = ''0''"
    "\<forall>l r lb rb. CHR ''{'' \<notin> set (l @ r @ lb @ rb) \<longrightarrow>
           formatEmailTemplate 0 1735689600000
               (Some (scenario_template\<lparr>subject := l @ ''{days_overdue}'' @ r,
                        body := lb @ ''{days_overdue}'' @ rb\<rparr>))
               (Some \<lparr>inv = scenario_invoice, client = Some scenario_client\<rparr>)
             = Inr (l @ N0 @ r,
                    replace_all [CHR 0x0A] ''<br />'' lb @ N0
                      @ replace_all [CHR 0x0A] ''<br />'' rb)"
    using days_overdue_rendered [where tz = 0 and clock = 1735689600000
        and i = scenario_invoice and c = scenario_client and t = scenario_template]
    by blast
  have n0: "N0 = ''0''"
    using N0(1) due by simp
  have r9: "formatEmailTemplate 0 1736467200000
        (Some (scenario_template\<lparr>subject := ?l @ ''{days_overdue}'' @ ?r,
            body := ?lb @ ''{days_overdue}'' @ ?rb\<rparr>))
        (Some \<lparr>inv = scenario_invoice, client = Some scenario_client\<rparr>)
      = Inr (?l @ ''9'' @ ?r, ?lb @ ''9'' @ ''.<br />Pay now'')"
    using N9(4) [rule_format, OF plain] unfolding n9 br by simp
  have r8: "formatEmailTemplate 0 1736467199999
        (Some (scenario_template\<lparr>subject := ?l @ ''{days_overdue}'' @ ?r,
            body := ?lb @ ''{days_overdue}'' @ ?rb\<rparr>))
        (Some \<lparr>inv = scenario_invoice, client = Some scenario_client\<rparr>)
      = Inr (?l @ ''8'' @ ?r, ?lb @ ''8'' @ ''.<br />Pay now'')"
    using N8(2) [rule_format, OF plain] unfolding n8 br .
  have r316: "formatEmailTemplate 0 1736467200000
        (Some (scenario_template\<lparr>subject := ?l @ ''{days_overdue}'' @ ?r,
            body := ?lb @ ''{days_overdue}'' @ ?rb\<rparr>))
        (Some \<lparr>inv = ?leap, client = Some scenario_client\<rparr>)
      = Inr (?l @ ''316'' @ ?r, ?lb @ ''316'' @ ''.<br />Pay now'')"
    using N316(2) [rule_format, OF plain] unfolding n316 br .
  have r0: "formatEmailTemplate 0 1735689600000
        (Some (scenario_template\<lparr>subject := ?l @ ''{days_overdue}'' @ ?r,
            body := ?lb @ ''{days_overdue}'' @ ?rb\<rparr>))
        (Some \<lparr>inv = scenario_invoice, client = Some scenario_client\<rparr>)
      = Inr (?l @ ''0'' @ ?r, ?lb @ ''0'' @ ''.<br />Pay now'')"
    using N0(2) [rule_format, OF plain] unfolding n0 br .
  show ?thesis
    using N9(1) v9 s9 t9 plain r9 r8 r316 due r0 unfolding n9 by (simp add: two)
qed

subsection \<open>The two formatters on the same invoice\<close>

lemma length_dec_step: "10 \<le> n \<Longrightarrow> length (dec n) = Suc (length (dec (n div 10)))"
  by (subst dec.simps) simp

lemma length_dec_pos: "Suc 0 \<le> length (dec n)"
  by (subst dec.simps) simp

lemma length_dec_4:
  assumes "1000 \<le> n"
  shows "4 \<le> length (dec n)"
proof -
  have a: "10 \<le> n" "10 \<le> n div 10" "10 \<le> n div 10 div 10"
    using assms by simp_all
  have "length (dec n) = Suc (Suc (Suc (length (dec (n div 10 div 10 div 10)))))"
    by (simp add: length_dec_step a)
  with length_dec_pos [of "n div 10 div 10 div 10"] show ?thesis by linarith
qed

lemma pad4_dec: "1000 \<le> n \<Longrightarrow> pad4 (dec n) = dec n"
  using length_dec_4 [of n] by (simp add: pad4_def)

lemma local_civil_date_utc:
  assumes "0 \<le> tz" "tz < msPerDay"
  shows "local_civil tz (date_utc d) = civil_of_day (MakeDay d)"
proof -
  have "(MakeDay d * msPerDay + tz) div msPerDay = MakeDay d"
    using assms by (intro div_between) (simp_all add: msPerDay_def algebra_simps)
  then show ?thesis
    by (simp add: local_civil_def date_utc_def)
qed

lemma local_civil_parseISO: "local_civil tz (parseISO tz d) = civil_of_day (MakeDay d)"
  by (simp add: local_civil_def parseISO_def msPerDay_def)

lemma replacements_agree:
  assumes "0 \<le> tz" "tz < msPerDay" "1000 \<le> fst (civil_of_day (MakeDay (due_date i)))"
  shows "preview_replacements 0 clock i c = email_replacements tz clock i c"
proof -
  obtain y m d where civ: "civil_of_day (MakeDay (due_date i)) = (y, m, d)"
    by (cases "civil_of_day (MakeDay (due_date i))")
  with assms(3) have "1000 \<le> printed_year y" by (simp add: printed_year_def)
  then have "pad4 (dec (printed_year y)) = dec (printed_year y)" by (rule pad4_dec)
  then have "format_MMMM_d_yyyy 0 (parseISO 0 (due_date i))
               = toLocaleDateString tz (date_utc (due_date i))"
    by (simp add: format_MMMM_d_yyyy_def toLocaleDateString_def local_civil_parseISO
        local_civil_date_utc [OF assms(1,2)] civ)
  moreover have "parseISO 0 (due_date i) = date_utc (due_date i)"
    by (simp add: parseISO_def date_utc_def)
  ultimately show ?thesis
    by (simp add: preview_replacements_def email_replacements_def)
qed

lemma scenario_preview_replace_west:
  "replace_each
     [(''{invoice_number}'', ''INV-001''), (''{amount}'', ''USD 150.00''),
      (''{due_date}'', ''January 1, 2025''), (''{days_overdue}'', ''8''),
      (''{client_name}'', ''Acme''), (''{user_name}'', []), (''{company_name}'', [])]
     (scenario_text, scenario_text) = (scenario_preview_west, scenario_preview_west)"
  by code_simp

lemma scenario_preview_due_date_west:
  "format_MMMM_d_yyyy utc_minus_5 (parseISO utc_minus_5 (IsoDate 2025 1 1)) = ''January 1, 2025''"
  by code_simp

lemma scenario_preview_days_west:
  "days_overdue_text (date_utc (IsoDate 2025 1 10)) (parseISO utc_minus_5 (IsoDate 2025 1 1)) = ''8''"
  by code_simp

lemma scenario_preview_west_subject:
  "subject (getFormattedPreview utc_minus_5 (date_utc (IsoDate 2025 1 10))
             (Some \<lparr>inv = scenario_invoice, client = Some scenario_client\<rparr>) scenario_template)
     = scenario_preview_west"
proof -
  have "preview_replacements utc_minus_5 (date_utc (IsoDate 2025 1 10))
               scenario_invoice scenario_client =
     [(''{invoice_number}'', ''INV-001''), (''{amount}'', ''USD'' @ '' '' @ ''150.00''),
      (''{due_date}'', ''January 1, 2025''), (''{days_overdue}'', ''8''),
      (''{client_name}'', ''Acme''), (''{user_name}'', []), (''{company_name}'', [])]"
    unfolding preview_replacements_def Let_def scenario_fields toFixed2_150
      scenario_preview_due_date_west scenario_preview_days_west ..
  then show ?thesis
    by (simp del: replace_each.simps
        add: getFormattedPreview_def scenario_fields scenario_preview_replace_west)
qed

lemma scenario_year: "civil_of_day (MakeDay (IsoDate 2025 1 1)) = (2025, 1, 1)"
  by code_simp

subsection \<open>C10: the preview of the scheduler and the renderer of the processor\<close>

text \<open>
  C10, as stated, fails when the runtime is not in UTC. The preview reads the due date as
  midnight of the local zone and the processor as midnight UTC, and both print it in the
  local zone: five hours west of UTC, at the same instant and in the same zone, the
  preview of the scenario says January 1, 2025 and 8 days overdue, the processor
  December 31, 2024 and 9 days overdue.
\<close>

theorem preview_differs_west_of_utc:
  "subject (getFormattedPreview utc_minus_5 (date_utc (IsoDate 2025 1 10))
             (Some \<lparr>inv = scenario_invoice, client = Some scenario_client\<rparr>) scenario_template)
     = scenario_preview_west
   \<and> formatEmailTemplate utc_minus_5 (date_utc (IsoDate 2025 1 10)) (Some scenario_template)
         (Some \<lparr>inv = scenario_invoice, client = Some scenario_client\<rparr>)
       = Inr (scenario_west, scenario_west)
   \<and> scenario_preview_west \<noteq> scenario_west"
  using scenario_preview_west_subject scenario_email_west
  by (simp add: scenario_preview_west_def scenario_west_def)

text \<open>
  C10, amended: for every template and every invoice with a client present, read at the
  same instant, when the preview runs in UTC, the processor runs in UTC or less than a day
  east of it, and the year of the due date has at least four digits, the two formatters
  agree: the subject of the processor is the subject of the preview, and the body of the
  processor is the body of the preview with every newline replaced by the line-break
  markup.
\<close>

theorem preview_agrees:
  assumes "0 \<le> tz" "tz < msPerDay" "1000 \<le> fst (civil_of_day (MakeDay (due_date i)))"
  shows "formatEmailTemplate tz clock (Some t) (Some \<lparr>inv = i, client = Some c\<rparr>)
           = Inr (subject (getFormattedPreview 0 clock (Some \<lparr>inv = i, client = Some c\<rparr>) t),
                  replace_all [CHR 0x0A] ''<br />''
                    (body (getFormattedPreview 0 clock (Some \<lparr>inv = i, client = Some c\<rparr>) t)))"
  by (simp add: formatEmailTemplate_def getFormattedPreview_def replacements_agree [OF assms]
      split: prod.splits)

theorem preview_agrees_witness:
  "(0::int) \<le> 0 \<and> 0 < msPerDay
   \<and> 1000 \<le> fst (civil_of_day (MakeDay (due_date scenario_invoice)))
   \<and> formatEmailTemplate 0 (date_utc (IsoDate 2025 1 10)) (Some scenario_template)
         (Some \<lparr>inv = scenario_invoice, client = Some scenario_client\<rparr>)
       = Inr (subject (getFormattedPreview 0 (date_utc (IsoDate 2025 1 10))
                        (Some \<lparr>inv = scenario_invoice, client = Some scenario_client\<rparr>)
                        scenario_template),
              replace_all [CHR 0x0A] ''<br />''
                (body (getFormattedPreview 0 (date_utc (IsoDate 2025 1 10))
                        (Some \<lparr>inv = scenario_invoice, client = Some scenario_client\<rparr>)
                        scenario_template)))"
proof -
  have pos: "0 < msPerDay"
    by (simp add: msPerDay_def)
  have year: "1000 \<le> fst (civil_of_day (MakeDay (due_date scenario_invoice)))"
    unfolding scenario_fields scenario_year by simp
  from preview_agrees [OF order_refl pos year, of "date_utc (IsoDate 2025 1 10)"
      scenario_template scenario_client] pos year
  show ?thesis by simp
qed

subsection \<open>One reminder in the loop\<close>

lemma process_each_append:
  "process_each srv (xs @ ys) s = process_each srv ys (process_each srv xs s)"
  by (induction xs arbitrary: s) simp_all

lemma update_reminder_simps:
  "users (fst (update_reminder srv rid p s)) = users (fst s)"
  "clients (fst (update_reminder srv rid p s)) = clients (fst s)"
  "invoices (fst (update_reminder srv rid p s)) = invoices (fst s)"
  "message_templates (fst (update_reminder srv rid p s)) = message_templates (fst s)"
  "snd (update_reminder srv rid p s) = snd s @ [UpdateReminder rid p]"
  by (simp_all add: update_reminder_def)

lemma reminder_id_apply_patch: "reminder_id (apply_patch p r) = reminder_id r"
  by (cases p) simp_all

lemma filter_map_other:
  assumes "\<And>r. f (g r) = f r" "x \<noteq> k"
  shows "filter (\<lambda>r. f r = x) (map (\<lambda>r. if f r = k then g r else r) xs) = filter (\<lambda>r. f r = x) xs"
  using assms by (induction xs) auto

lemma filter_map_same:
  assumes "\<And>r. f (g r) = f r"
  shows "filter (\<lambda>r. f r = k) (map (\<lambda>r. if f r = k then g r else r) xs)
           = map g (filter (\<lambda>r. f r = k) xs)"
  using assms by (induction xs) auto

lemma update_reminder_rows_other:
  "x \<noteq> rid \<Longrightarrow> rows_with_id (fst (update_reminder srv rid p s)) x = rows_with_id (fst s) x"
  by (simp add: update_reminder_def rows_with_id_def filter_map_other reminder_id_apply_patch)

lemma update_reminder_rows_same:
  "rows_with_id (fst (update_reminder srv rid p s)) rid =
     (if update_applied srv rid then map (apply_patch p) (rows_with_id (fst s) rid)
      else rows_with_id (fst s) rid)"
  by (simp add: update_reminder_def rows_with_id_def filter_map_same reminder_id_apply_patch)

text \<open>What the inner try and catch do, case by case.\<close>

lemma try_reminder_no_invoice:
  assumes "invoice r = None"
  shows "try_reminder srv r s =
           (fst s, snd s @ [ConsoleError (ErrorProcessingReminder (reminder_id (rem r)) TypeError)])"
  using assms by (simp add: try_reminder_def process_reminder_def)

lemma try_reminder_paid:
  assumes "invoice r = Some iv" "invoice_status (inv iv) = Paid"
  shows "try_reminder srv r s = update_reminder srv (reminder_id (rem r)) SetCancelled s"
  using assms by (simp add: try_reminder_def process_reminder_def)

lemma try_reminder_render_fails:
  assumes "invoice r = Some iv" "invoice_status (inv iv) \<noteq> Paid"
      and "formatEmailTemplate (time_zone srv) (today srv (reminder_id (rem r))) (template r)
             (invoice r) = Inl e"
  shows "try_reminder srv r s =
           (fst s, snd s @ [ConsoleError (ErrorProcessingReminder (reminder_id (rem r)) e)])"
  using assms by (simp add: try_reminder_def process_reminder_def)

lemma try_reminder_sent:
  assumes "invoice r = Some iv" "invoice_status (inv iv) \<noteq> Paid"
      and "formatEmailTemplate (time_zone srv) (today srv (reminder_id (rem r))) (template r)
             (invoice r) = Inr sb"
      and "client iv = Some c"
      and "fst (sendEmail srv (reminder_id (rem r)) (content_for (fst s) iv c sb)) = Success"
  shows "try_reminder srv r s =
           update_reminder srv (reminder_id (rem r)) (SetSent (sent_now srv (reminder_id (rem r))))
             (fst s, snd s @ SendEmailCall (reminder_id (rem r)) (content_for (fst s) iv c sb) Success
                       # snd (sendEmail srv (reminder_id (rem r)) (content_for (fst s) iv c sb)))"
  using assms
  by (cases sb) (simp add: try_reminder_def process_reminder_def content_for_def Let_def)

lemma try_reminder_send_fails:
  assumes "invoice r = Some iv" "invoice_status (inv iv) \<noteq> Paid"
      and "formatEmailTemplate (time_zone srv) (today srv (reminder_id (rem r))) (template r)
             (invoice r) = Inr sb"
      and "client iv = Some c"
      and "fst (sendEmail srv (reminder_id (rem r)) (content_for (fst s) iv c sb)) = Failure m"
  shows "try_reminder srv r s =
           (fst s, snd s @ SendEmailCall (reminder_id (rem r)) (content_for (fst s) iv c sb) (Failure m)
                       # snd (sendEmail srv (reminder_id (rem r)) (content_for (fst s) iv c sb))
                       @ [ConsoleError (FailedToSendReminder (reminder_id (rem r)) m)])"
  using assms
  by (cases sb) (simp add: try_reminder_def process_reminder_def content_for_def Let_def)

lemma format_ok_client:
  assumes "formatEmailTemplate tz clock tpl (Some iv) = Inr sb"
  shows "\<exists>c. client iv = Some c"
  using assms by (auto simp: formatEmailTemplate_def split: option.splits)

lemma sendEmail_events_not_about: "\<forall>e \<in> set (snd (sendEmail srv rid c)). \<not> about x e \<and> \<not> is_send e \<and> \<not> is_update e"
  by (auto simp: sendEmail_def Let_def split: option.splits mail_outcome.splits)


lemma try_reminder_shape:
  "\<exists>evs. (\<forall>e \<in> set evs. \<forall>x. about x e \<longrightarrow> x = reminder_id (rem r))
         \<and> (try_reminder srv r s = (fst s, snd s @ evs)
            \<or> (\<exists>p. try_reminder srv r s
                       = update_reminder srv (reminder_id (rem r)) p (fst s, snd s @ evs)))"
proof (cases "invoice r")
  case None
  from try_reminder_no_invoice [OF None, of srv s] show ?thesis
    by (intro exI [of _ "[ConsoleError (ErrorProcessingReminder (reminder_id (rem r)) TypeError)]"])
      simp
next
  case (Some iv)
  show ?thesis
  proof (cases "invoice_status (inv iv) = Paid")
    case True
    from try_reminder_paid [OF Some True, of srv s] show ?thesis
      by (intro exI [of _ "[]"]) auto
  next
    case unpaid: False
    show ?thesis
    proof (cases "formatEmailTemplate (time_zone srv) (today srv (reminder_id (rem r)))
                    (template r) (invoice r)")
      case (Inl e)
      from try_reminder_render_fails [OF Some unpaid Inl, of s] show ?thesis
        by (intro exI [of _ "[ConsoleError (ErrorProcessingReminder (reminder_id (rem r)) e)]"])
          simp
    next
      case (Inr sb)
      then obtain c where c: "client iv = Some c"
        using format_ok_client [of _ _ "template r" iv sb] Some by auto
      let ?content = "content_for (fst s) iv c sb"
      let ?res = "sendEmail srv (reminder_id (rem r)) ?content"
      show ?thesis
      proof (cases "fst ?res")
        case Success
        from try_reminder_sent [OF Some unpaid Inr c Success] show ?thesis
          using sendEmail_events_not_about [of srv "reminder_id (rem r)" ?content]
          by (intro exI [of _ "SendEmailCall (reminder_id (rem r)) ?content Success # snd ?res"])
            auto
      next
        case (Failure m)
        from try_reminder_send_fails [OF Some unpaid Inr c Failure] show ?thesis
          using sendEmail_events_not_about [of srv "reminder_id (rem r)" ?content]
          by (intro exI [of _ "SendEmailCall (reminder_id (rem r)) ?content (Failure m) # snd ?res
                @ [ConsoleError (FailedToSendReminder (reminder_id (rem r)) m)]"])
            auto
      qed
    qed
  qed
qed

lemma try_reminder_frame:
  "users (fst (try_reminder srv r s)) = users (fst s)"
  "clients (fst (try_reminder srv r s)) = clients (fst s)"
  "invoices (fst (try_reminder srv r s)) = invoices (fst s)"
  "message_templates (fst (try_reminder srv r s)) = message_templates (fst s)"
  using try_reminder_shape [of r srv s] by (auto simp: update_reminder_simps)

lemma try_reminder_rows_other:
  assumes "x \<noteq> reminder_id (rem r)"
  shows "rows_with_id (fst (try_reminder srv r s)) x = rows_with_id (fst s) x"
  using try_reminder_shape [of r srv s] assms by (auto simp: update_reminder_rows_other)

lemma try_reminder_events_other:
  assumes "x \<noteq> reminder_id (rem r)"
  shows "events_about x (snd (try_reminder srv r s)) = events_about x (snd s)"
proof -
  from try_reminder_shape [of r srv s] obtain evs where
    evs: "\<forall>e \<in> set evs. \<forall>x. about x e \<longrightarrow> x = reminder_id (rem r)" and
    shape: "try_reminder srv r s = (fst s, snd s @ evs)
            \<or> (\<exists>p. try_reminder srv r s
                       = update_reminder srv (reminder_id (rem r)) p (fst s, snd s @ evs))"
    by blast
  from evs assms have "filter (about x) evs = []"
    by (auto simp: filter_empty_conv)
  with shape assms show ?thesis
    by (auto simp: events_about_def update_reminder_simps)
qed

lemma process_each_frame:
  "users (fst (process_each srv rs s)) = users (fst s)"
  "clients (fst (process_each srv rs s)) = clients (fst s)"
  "invoices (fst (process_each srv rs s)) = invoices (fst s)"
  "message_templates (fst (process_each srv rs s)) = message_templates (fst s)"
  by (induction rs arbitrary: s) (simp_all add: try_reminder_frame)

lemma process_each_rows_other:
  assumes "x \<notin> set (map (reminder_id \<circ> rem) rs)"
  shows "rows_with_id (fst (process_each srv rs s)) x = rows_with_id (fst s) x"
  using assms by (induction rs arbitrary: s) (auto simp: try_reminder_rows_other)

lemma process_each_events_other:
  assumes "x \<notin> set (map (reminder_id \<circ> rem) rs)"
  shows "events_about x (snd (process_each srv rs s)) = events_about x (snd s)"
  using assms by (induction rs arbitrary: s) (auto simp: try_reminder_events_other)


lemma run_unfold:
  assumes "due_query_error srv = None"
  shows "store_after srv st = fst (process_each srv (select_due st (now srv)) (st, []))"
    and "events_of srv st = snd (process_each srv (select_due st (now srv)) (st, []))"
    and "fst (processScheduledReminders srv st) = Inr ()"
  using assms
  by (simp_all add: store_after_def events_of_def processScheduledReminders_def process_try_def
      Let_def)

lemma rows_with_id_distinct:
  assumes "distinct (map reminder_id (reminders st))" "r \<in> set (reminders st)"
  shows "rows_with_id st (reminder_id r) = [r]"
proof -
  have "distinct (map f xs) \<Longrightarrow> x \<in> set xs \<Longrightarrow> filter (\<lambda>y. f y = f x) xs = [x]"
    for f :: "reminder \<Rightarrow> string" and xs x
    by (induction xs) (auto simp: filter_empty_conv rev_image_eqI)
  from this [OF assms] show ?thesis
    by (simp add: rows_with_id_def)
qed

lemma rem_embed [simp]: "rem (embed_reminder st r) = r"
  by (simp add: embed_reminder_def)

lemma due_split:
  assumes "distinct (map reminder_id (reminders st))" "r \<in> set (reminders st)" "is_due t r"
  obtains pre post where
    "select_due st t = pre @ embed_reminder st r # post"
    "reminder_id r \<notin> set (map (reminder_id \<circ> rem) pre)"
    "reminder_id r \<notin> set (map (reminder_id \<circ> rem) post)"
proof -
  let ?due = "filter (is_due t) (reminders st)"
  have d: "distinct (map reminder_id ?due)"
    using assms(1) by (rule distinct_map_filter)
  have "r \<in> set ?due" using assms(2,3) by simp
  then obtain xs ys where split: "?due = xs @ r # ys"
    by (auto simp: in_set_conv_decomp)
  from d split have "reminder_id r \<notin> reminder_id ` set xs" "reminder_id r \<notin> reminder_id ` set ys"
    by auto
  then have "reminder_id r \<notin> set (map (reminder_id \<circ> rem) (map (embed_reminder st) xs))"
    "reminder_id r \<notin> set (map (reminder_id \<circ> rem) (map (embed_reminder st) ys))"
    by (auto simp: o_def)
  moreover have "select_due st t
      = map (embed_reminder st) xs @ embed_reminder st r # map (embed_reminder st) ys"
    by (simp add: select_due_def split)
  ultimately show thesis by (rule that [rotated])
qed

lemma run_localised:
  assumes ok: "due_query_error srv = None"
      and dist: "distinct (map reminder_id (reminders st))"
      and r: "r \<in> set (reminders st)" "is_due (now srv) r"
  obtains s where
    "users (fst s) = users st"
    "rows_with_id (fst s) (reminder_id r) = [r]"
    "events_about (reminder_id r) (snd s) = []"
    "rows_with_id (store_after srv st) (reminder_id r)
       = rows_with_id (fst (try_reminder srv (embed_reminder st r) s)) (reminder_id r)"
    "events_about (reminder_id r) (events_of srv st)
       = events_about (reminder_id r) (snd (try_reminder srv (embed_reminder st r) s))"
proof -
  from due_split [OF dist r] obtain pre post where
    split: "select_due st (now srv) = pre @ embed_reminder st r # post" and
    pre: "reminder_id r \<notin> set (map (reminder_id \<circ> rem) pre)" and
    post: "reminder_id r \<notin> set (map (reminder_id \<circ> rem) post)"
    by blast
  let ?s = "process_each srv pre (st, [])"
  have whole: "process_each srv (select_due st (now srv)) (st, [])
      = process_each srv post (try_reminder srv (embed_reminder st r) ?s)"
    by (simp add: split process_each_append)
  show thesis
  proof (rule that [of ?s])
    show "users (fst ?s) = users st"
      by (simp add: process_each_frame)
    show "rows_with_id (fst ?s) (reminder_id r) = [r]"
      using process_each_rows_other [OF pre, of srv "(st, [])"] rows_with_id_distinct [OF dist r(1)]
      by simp
    show "events_about (reminder_id r) (snd ?s) = []"
      using process_each_events_other [OF pre, of srv "(st, [])"]
      by (simp add: events_about_def)
    show "rows_with_id (store_after srv st) (reminder_id r)
       = rows_with_id (fst (try_reminder srv (embed_reminder st r) ?s)) (reminder_id r)"
      unfolding run_unfold(1) [OF ok] whole by (rule process_each_rows_other [OF post])
    show "events_about (reminder_id r) (events_of srv st)
       = events_about (reminder_id r) (snd (try_reminder srv (embed_reminder st r) ?s))"
      unfolding run_unfold(2) [OF ok] whole by (rule process_each_events_other [OF post])
  qed
qed


lemma content_for_users:
  "users st1 = users st2 \<Longrightarrow> content_for st1 iv c sb = content_for st2 iv c sb"
  by (simp add: content_for_def single_user_def)

lemma due_in_localised:
  assumes "due_in srv st r"
  obtains s where
    "users (fst s) = users st"
    "rows_with_id (fst s) (reminder_id r) = [r]"
    "events_about (reminder_id r) (snd s) = []"
    "rows_with_id (store_after srv st) (reminder_id r)
       = rows_with_id (fst (try_reminder srv (embed_reminder st r) s)) (reminder_id r)"
    "events_about (reminder_id r) (events_of srv st)
       = events_about (reminder_id r) (snd (try_reminder srv (embed_reminder st r) s))"
  using assms run_localised [of srv st r] unfolding due_in_def by blast

lemma run_no_invoice:
  assumes "due_in srv st r" "invoice (embed_reminder st r) = None"
  shows "rows_with_id (store_after srv st) (reminder_id r) = [r]"
    and "events_about (reminder_id r) (events_of srv st)
           = [ConsoleError (ErrorProcessingReminder (reminder_id r) TypeError)]"
proof -
  from due_in_localised [OF assms(1)] obtain s where s:
    "rows_with_id (fst s) (reminder_id r) = [r]"
    "events_about (reminder_id r) (snd s) = []"
    "rows_with_id (store_after srv st) (reminder_id r)
       = rows_with_id (fst (try_reminder srv (embed_reminder st r) s)) (reminder_id r)"
    "events_about (reminder_id r) (events_of srv st)
       = events_about (reminder_id r) (snd (try_reminder srv (embed_reminder st r) s))"
    by blast
  note step = try_reminder_no_invoice [OF assms(2), of srv s]
  show "rows_with_id (store_after srv st) (reminder_id r) = [r]"
    using s(1,3) step by simp
  show "events_about (reminder_id r) (events_of srv st)
           = [ConsoleError (ErrorProcessingReminder (reminder_id r) TypeError)]"
    using s(2,4) step by (simp add: events_about_def)
qed

lemma run_paid:
  assumes "due_in srv st r" "invoice (embed_reminder st r) = Some iv"
      and "invoice_status (inv iv) = Paid"
  shows "rows_with_id (store_after srv st) (reminder_id r)
           = (if update_applied srv (reminder_id r)
              then [r\<lparr>reminder_status := Cancelled\<rparr>] else [r])"
    and "events_about (reminder_id r) (events_of srv st)
           = [UpdateReminder (reminder_id r) SetCancelled]"
proof -
  from due_in_localised [OF assms(1)] obtain s where s:
    "rows_with_id (fst s) (reminder_id r) = [r]"
    "events_about (reminder_id r) (snd s) = []"
    "rows_with_id (store_after srv st) (reminder_id r)
       = rows_with_id (fst (try_reminder srv (embed_reminder st r) s)) (reminder_id r)"
    "events_about (reminder_id r) (events_of srv st)
       = events_about (reminder_id r) (snd (try_reminder srv (embed_reminder st r) s))"
    by blast
  note step = try_reminder_paid [OF assms(2,3), of srv s]
  show "rows_with_id (store_after srv st) (reminder_id r)
           = (if update_applied srv (reminder_id r)
              then [r\<lparr>reminder_status := Cancelled\<rparr>] else [r])"
    using s(1,3) step by (simp add: update_reminder_rows_same)
  show "events_about (reminder_id r) (events_of srv st)
           = [UpdateReminder (reminder_id r) SetCancelled]"
    using s(2,4) step by (simp add: events_about_def update_reminder_simps)
qed

lemma run_render_fails:
  assumes "due_in srv st r" "invoice (embed_reminder st r) = Some iv"
      and "invoice_status (inv iv) \<noteq> Paid"
      and "formatEmailTemplate (time_zone srv) (today srv (reminder_id r))
             (template (embed_reminder st r)) (invoice (embed_reminder st r)) = Inl e"
  shows "rows_with_id (store_after srv st) (reminder_id r) = [r]"
    and "events_about (reminder_id r) (events_of srv st)
           = [ConsoleError (ErrorProcessingReminder (reminder_id r) e)]"
proof -
  from due_in_localised [OF assms(1)] obtain s where s:
    "rows_with_id (fst s) (reminder_id r) = [r]"
    "events_about (reminder_id r) (snd s) = []"
    "rows_with_id (store_after srv st) (reminder_id r)
       = rows_with_id (fst (try_reminder srv (embed_reminder st r) s)) (reminder_id r)"
    "events_about (reminder_id r) (events_of srv st)
       = events_about (reminder_id r) (snd (try_reminder srv (embed_reminder st r) s))"
    by blast
  have "try_reminder srv (embed_reminder st r) s =
      (fst s, snd s @ [ConsoleError (ErrorProcessingReminder (reminder_id r) e)])"
    using try_reminder_render_fails [of "embed_reminder st r" iv srv e s] assms(2,3,4) by simp
  note step = this
  show "rows_with_id (store_after srv st) (reminder_id r) = [r]"
    using s(1,3) step by simp
  show "events_about (reminder_id r) (events_of srv st)
           = [ConsoleError (ErrorProcessingReminder (reminder_id r) e)]"
    using s(2,4) step by (simp add: events_about_def)
qed

lemma run_sent:
  assumes "due_in srv st r" "invoice (embed_reminder st r) = Some iv"
      and "invoice_status (inv iv) \<noteq> Paid"
      and "formatEmailTemplate (time_zone srv) (today srv (reminder_id r))
             (template (embed_reminder st r)) (invoice (embed_reminder st r)) = Inr sb"
      and "client iv = Some c"
      and "fst (sendEmail srv (reminder_id r) (content_for st iv c sb)) = Success"
  shows "rows_with_id (store_after srv st) (reminder_id r)
           = (if update_applied srv (reminder_id r)
              then [r\<lparr>reminder_status := ReminderSent,
                       sent_at := Some (sent_now srv (reminder_id r))\<rparr>]
              else [r])"
    and "events_about (reminder_id r) (events_of srv st)
           = [SendEmailCall (reminder_id r) (content_for st iv c sb) Success,
              UpdateReminder (reminder_id r) (SetSent (sent_now srv (reminder_id r)))]"
proof -
  from due_in_localised [OF assms(1)] obtain s where s:
    "users (fst s) = users st"
    "rows_with_id (fst s) (reminder_id r) = [r]"
    "events_about (reminder_id r) (snd s) = []"
    "rows_with_id (store_after srv st) (reminder_id r)
       = rows_with_id (fst (try_reminder srv (embed_reminder st r) s)) (reminder_id r)"
    "events_about (reminder_id r) (events_of srv st)
       = events_about (reminder_id r) (snd (try_reminder srv (embed_reminder st r) s))"
    by blast
  let ?c = "content_for st iv c sb"
  have c: "content_for (fst s) iv c sb = ?c"
    by (rule content_for_users [OF s(1)])
  have step: "try_reminder srv (embed_reminder st r) s =
      update_reminder srv (reminder_id r) (SetSent (sent_now srv (reminder_id r)))
        (fst s, snd s @ SendEmailCall (reminder_id r) ?c Success
                  # snd (sendEmail srv (reminder_id r) ?c))"
    using try_reminder_sent [of "embed_reminder st r" iv srv sb c s] assms(2-6) c by simp
  have quiet: "filter (about (reminder_id r)) (snd (sendEmail srv (reminder_id r) ?c)) = []"
    using sendEmail_events_not_about [of srv "reminder_id r" ?c] by (auto simp: filter_empty_conv)
  show "rows_with_id (store_after srv st) (reminder_id r)
           = (if update_applied srv (reminder_id r)
              then [r\<lparr>reminder_status := ReminderSent,
                       sent_at := Some (sent_now srv (reminder_id r))\<rparr>]
              else [r])"
    using s(2,4) step by (simp add: update_reminder_rows_same)
  show "events_about (reminder_id r) (events_of srv st)
           = [SendEmailCall (reminder_id r) ?c Success,
              UpdateReminder (reminder_id r) (SetSent (sent_now srv (reminder_id r)))]"
    using s(3,5) step quiet by (simp add: events_about_def update_reminder_simps)
qed

lemma run_send_fails:
  assumes "due_in srv st r" "invoice (embed_reminder st r) = Some iv"
      and "invoice_status (inv iv) \<noteq> Paid"
      and "formatEmailTemplate (time_zone srv) (today srv (reminder_id r))
             (template (embed_reminder st r)) (invoice (embed_reminder st r)) = Inr sb"
      and "client iv = Some c"
      and "fst (sendEmail srv (reminder_id r) (content_for st iv c sb)) = Failure m"
  shows "rows_with_id (store_after srv st) (reminder_id r) = [r]"
    and "events_about (reminder_id r) (events_of srv st)
           = [SendEmailCall (reminder_id r) (content_for st iv c sb) (Failure m),
              ConsoleError (FailedToSendReminder (reminder_id r) m)]"
proof -
  from due_in_localised [OF assms(1)] obtain s where s:
    "users (fst s) = users st"
    "rows_with_id (fst s) (reminder_id r) = [r]"
    "events_about (reminder_id r) (snd s) = []"
    "rows_with_id (store_after srv st) (reminder_id r)
       = rows_with_id (fst (try_reminder srv (embed_reminder st r) s)) (reminder_id r)"
    "events_about (reminder_id r) (events_of srv st)
       = events_about (reminder_id r) (snd (try_reminder srv (embed_reminder st r) s))"
    by blast
  let ?c = "content_for st iv c sb"
  have c: "content_for (fst s) iv c sb = ?c"
    by (rule content_for_users [OF s(1)])
  have step: "try_reminder srv (embed_reminder st r) s =
      (fst s, snd s @ SendEmailCall (reminder_id r) ?c (Failure m)
                  # snd (sendEmail srv (reminder_id r) ?c)
                  @ [ConsoleError (FailedToSendReminder (reminder_id r) m)])"
    using try_reminder_send_fails [of "embed_reminder st r" iv srv sb c s m] assms(2-6) c by simp
  have quiet: "filter (about (reminder_id r)) (snd (sendEmail srv (reminder_id r) ?c)) = []"
    using sendEmail_events_not_about [of srv "reminder_id r" ?c] by (auto simp: filter_empty_conv)
  show "rows_with_id (store_after srv st) (reminder_id r) = [r]"
    using s(2,4) step by simp
  show "events_about (reminder_id r) (events_of srv st)
           = [SendEmailCall (reminder_id r) ?c (Failure m),
              ConsoleError (FailedToSendReminder (reminder_id r) m)]"
    using s(3,5) step quiet by (simp add: events_about_def)
qed


lemma send_event_cases:
  assumes due: "due_in srv st r"
      and ev: "SendEmailCall (reminder_id r) c res \<in> set (events_of srv st)"
  obtains iv sb cl where
    "invoice (embed_reminder st r) = Some iv" "invoice_status (inv iv) \<noteq> Paid"
    "formatEmailTemplate (time_zone srv) (today srv (reminder_id r))
       (template (embed_reminder st r)) (invoice (embed_reminder st r)) = Inr sb"
    "client iv = Some cl" "c = content_for st iv cl sb"
    "fst (sendEmail srv (reminder_id r) (content_for st iv cl sb)) = res"
proof -
  let ?rid = "reminder_id r"
  let ?d = "embed_reminder st r"
  from ev have mem: "SendEmailCall ?rid c res \<in> set (events_about ?rid (events_of srv st))"
    by (simp add: events_about_def)
  show thesis
  proof (cases "invoice ?d")
    case None
    from run_no_invoice(2) [OF due None] mem show ?thesis by simp
  next
    case (Some iv)
    show ?thesis
    proof (cases "invoice_status (inv iv) = Paid")
      case True
      from run_paid(2) [OF due Some True] mem show ?thesis by simp
    next
      case unpaid: False
      show ?thesis
      proof (cases "formatEmailTemplate (time_zone srv) (today srv ?rid) (template ?d) (invoice ?d)")
        case (Inl e)
        from run_render_fails(2) [OF due Some unpaid Inl] mem show ?thesis by simp
      next
        case (Inr sb)
        then obtain cl where cl: "client iv = Some cl"
          using format_ok_client [of _ _ "template ?d" iv sb] Some by auto
        show ?thesis
        proof (cases "fst (sendEmail srv ?rid (content_for st iv cl sb))")
          case Success
          from run_sent(2) [OF due Some unpaid Inr cl Success] mem
          have "c = content_for st iv cl sb" "res = Success" by simp_all
          with Some unpaid Inr cl Success show ?thesis by (intro that) simp_all
        next
          case (Failure m)
          from run_send_fails(2) [OF due Some unpaid Inr cl Failure] mem
          have "c = content_for st iv cl sb" "res = Failure m" by simp_all
          with Some unpaid Inr cl Failure show ?thesis by (intro that) simp_all
        qed
      qed
    qed
  qed
qed

lemma try_reminder_new_events:
  assumes "e \<in> set (snd (try_reminder srv r s))" "about x e"
  shows "e \<in> set (snd s) \<or> x = reminder_id (rem r)"
  using try_reminder_shape [of r srv s] assms by (auto simp: update_reminder_simps)






lemma process_each_new_events:
  assumes "e \<in> set (snd (process_each srv rs s))" "about x e"
  shows "e \<in> set (snd s) \<or> x \<in> set (map (reminder_id \<circ> rem) rs)"
  using assms
proof (induction rs arbitrary: s)
  case Nil
  then show ?case by simp
next
  case (Cons r rs)
  from Cons.IH [of "try_reminder srv r s"] Cons.prems
  have "e \<in> set (snd (try_reminder srv r s)) \<or> x \<in> set (map (reminder_id \<circ> rem) rs)"
    by simp
  with try_reminder_new_events [of e srv r s x] Cons.prems(2) show ?case by auto
qed

lemma try_reminder_events_cong:
  assumes "users (fst s1) = users (fst s2)" "snd s1 = snd s2"
  shows "snd (try_reminder srv r s1) = snd (try_reminder srv r s2)"
  using assms
  by (auto simp: try_reminder_def process_reminder_def update_reminder_def single_user_def Let_def
      split: option.splits sum.splits prod.splits send_result.splits)

lemma process_each_events_cong:
  assumes "users (fst s1) = users (fst s2)" "snd s1 = snd s2"
  shows "snd (process_each srv rs s1) = snd (process_each srv rs s2)"
  using assms
proof (induction rs arbitrary: s1 s2)
  case Nil
  then show ?case by simp
next
  case (Cons r rs)
  show ?case
    using Cons.IH [of "try_reminder srv r s1" "try_reminder srv r s2"]
      try_reminder_events_cong [OF Cons.prems, of srv r] Cons.prems(1)
    by (simp add: try_reminder_frame)
qed

lemma format_present:
  assumes "client iv = Some c"
  shows "formatEmailTemplate tz clock (Some t) (Some iv) = Inr (rendered tz clock t (inv iv) c)"
  using assms by (simp add: formatEmailTemplate_def rendered_def split: prod.splits)

lemma no_send_if_not_about:
  assumes "events_about rid evs = es" "\<forall>e \<in> set es. \<not> is_send e"
  shows "SendEmailCall rid c res \<notin> set evs"
proof
  assume "SendEmailCall rid c res \<in> set evs"
  then have "SendEmailCall rid c res \<in> set (events_about rid evs)"
    by (simp add: events_about_def)
  with assms show False by auto
qed

subsection \<open>Facts about the example\<close>

lemma example_ids:
  "reminder_id reminder_unpaid = ''r1''" "reminder_id reminder_paid = ''r2''"
  "reminder_id reminder_no_template = ''r3''" "reminder_id reminder_later = ''r4''"
  by (simp_all add: reminder_unpaid_def reminder_paid_def reminder_no_template_def
      reminder_later_def)

lemma example_distinct: "distinct (map reminder_id (reminders example_store))"
  by (simp add: example_store_def example_ids)

lemma example_members:
  "reminder_unpaid \<in> set (reminders example_store)"
  "reminder_paid \<in> set (reminders example_store)"
  "reminder_no_template \<in> set (reminders example_store)"
  "reminder_later \<in> set (reminders example_store)"
  by (simp_all add: example_store_def)

lemma example_is_due:
  "is_due (now example_server) reminder_unpaid" "is_due (now example_server) reminder_paid"
  "is_due (now example_server) reminder_no_template"
  "\<not> is_due (now example_server) reminder_later"
  by (simp_all add: is_due_def example_server_def reminder_unpaid_def reminder_paid_def
      reminder_no_template_def reminder_later_def)

lemma example_sent_at:
  "sent_at reminder_unpaid = None" "sent_at reminder_paid = None"
  "sent_at reminder_no_template = None"
  by (simp_all add: reminder_unpaid_def reminder_paid_def reminder_no_template_def)

lemma example_embed:
  "embed_reminder example_store reminder_unpaid =
     \<lparr>rem = reminder_unpaid,
      invoice = Some \<lparr>inv = scenario_invoice, client = Some scenario_client\<rparr>,
      template = Some scenario_template\<rparr>"
  "embed_reminder example_store reminder_paid =
     \<lparr>rem = reminder_paid,
      invoice = Some \<lparr>inv = paid_invoice, client = Some scenario_client\<rparr>,
      template = Some scenario_template\<rparr>"
  "embed_reminder example_store reminder_no_template =
     \<lparr>rem = reminder_no_template,
      invoice = Some \<lparr>inv = scenario_invoice, client = Some scenario_client\<rparr>,
      template = None\<rparr>"
  by (simp_all add: embed_reminder_def embed_client_def example_store_def reminder_unpaid_def
      reminder_paid_def reminder_no_template_def scenario_invoice_def paid_invoice_def
      scenario_client_def scenario_template_def)

lemma example_status:
  "invoice_status scenario_invoice \<noteq> Paid" "invoice_status paid_invoice = Paid"
  by (simp_all add: scenario_invoice_def paid_invoice_def)

lemma example_server_fields:
  "due_query_error example_server = None" "update_applied example_server rid"
  "time_zone example_server = 0" "today example_server rid = 1736467200700"
  "sent_now example_server rid = 1736467201500" "now example_server = 1736467200000"
  by (simp_all add: example_server_def)

lemma rejecting_server_fields:
  "due_query_error rejecting_server = None"
  "time_zone rejecting_server = 0" "today rejecting_server rid = 1736467200700"
  "now rejecting_server = 1736467200000"
  by (simp_all add: rejecting_server_def example_server_def)

lemma example_due_in:
  "due_in example_server example_store reminder_unpaid"
  "due_in example_server example_store reminder_paid"
  "due_in example_server example_store reminder_no_template"
  "due_in rejecting_server example_store reminder_unpaid"
  using example_distinct example_members example_is_due
  by (simp_all add: due_in_def example_server_fields rejecting_server_fields)

lemma example_send:
  "fst (sendEmail example_server rid c) = Success"
  "fst (sendEmail rejecting_server rid c) = Failure ''Forbidden''"
  by (simp_all add: sendEmail_def example_server_def rejecting_server_def truthy_def or_else_def
      Let_def)

lemma example_format:
  "formatEmailTemplate (time_zone example_server) (today example_server ''r1'')
     (template (embed_reminder example_store reminder_unpaid))
     (invoice (embed_reminder example_store reminder_unpaid))
   = Inr (rendered 0 1736467200700 scenario_template scenario_invoice scenario_client)"
  "formatEmailTemplate (time_zone rejecting_server) (today rejecting_server ''r1'')
     (template (embed_reminder example_store reminder_unpaid))
     (invoice (embed_reminder example_store reminder_unpaid))
   = Inr (rendered 0 1736467200700 scenario_template scenario_invoice scenario_client)"
  by (simp_all add: example_embed example_server_fields rejecting_server_fields format_present)

lemma example_run_sent:
  "rows_with_id (store_after example_server example_store) ''r1''
     = [reminder_unpaid\<lparr>reminder_status := ReminderSent, sent_at := Some 1736467201500\<rparr>]"
  "events_about ''r1'' (events_of example_server example_store)
     = [SendEmailCall ''r1'' example_content Success, UpdateReminder ''r1'' (SetSent 1736467201500)]"
proof -
  have iv: "invoice (embed_reminder example_store reminder_unpaid)
      = Some \<lparr>inv = scenario_invoice, client = Some scenario_client\<rparr>"
    by (simp add: example_embed)
  have unpaid: "invoice_status (inv \<lparr>inv = scenario_invoice, client = Some scenario_client\<rparr>) \<noteq> Paid"
    by (simp add: example_status)
  have fmt: "formatEmailTemplate (time_zone example_server)
      (today example_server (reminder_id reminder_unpaid))
      (template (embed_reminder example_store reminder_unpaid))
      (invoice (embed_reminder example_store reminder_unpaid))
    = Inr (rendered 0 1736467200700 scenario_template scenario_invoice scenario_client)"
    using example_format(1) by (simp add: example_ids)
  have cl: "client \<lparr>inv = scenario_invoice, client = Some scenario_client\<rparr> = Some scenario_client"
    by simp
  note run = run_sent [OF example_due_in(1) iv unpaid fmt cl example_send(1)]
  from run(1) show "rows_with_id (store_after example_server example_store) ''r1''
     = [reminder_unpaid\<lparr>reminder_status := ReminderSent, sent_at := Some 1736467201500\<rparr>]"
    by (simp add: example_ids example_server_fields)
  from run(2) show "events_about ''r1'' (events_of example_server example_store)
     = [SendEmailCall ''r1'' example_content Success, UpdateReminder ''r1'' (SetSent 1736467201500)]"
    by (simp add: example_ids example_server_fields example_content_def)
qed


lemma events_about_member:
  assumes "events_about rid evs = es" "e \<in> set es"
  shows "e \<in> set evs"
  using assms by (auto simp: events_about_def)


lemma example_run_paid:
  "rows_with_id (store_after example_server example_store) ''r2''
     = [reminder_paid\<lparr>reminder_status := Cancelled\<rparr>]"
  "events_about ''r2'' (events_of example_server example_store)
     = [UpdateReminder ''r2'' SetCancelled]"
proof -
  have iv: "invoice (embed_reminder example_store reminder_paid)
      = Some \<lparr>inv = paid_invoice, client = Some scenario_client\<rparr>"
    by (simp add: example_embed)
  have paid: "invoice_status (inv \<lparr>inv = paid_invoice, client = Some scenario_client\<rparr>) = Paid"
    by (simp add: example_status)
  note run = run_paid [OF example_due_in(2) iv paid]
  from run(1) show "rows_with_id (store_after example_server example_store) ''r2''
     = [reminder_paid\<lparr>reminder_status := Cancelled\<rparr>]"
    by (simp add: example_ids example_server_fields)
  from run(2) show "events_about ''r2'' (events_of example_server example_store)
     = [UpdateReminder ''r2'' SetCancelled]"
    by (simp add: example_ids)
qed

subsection \<open>C1: a due reminder of a paid invoice\<close>

text \<open>
  C1: when the select of due reminders succeeds, a due reminder (pending, scheduled at or
  before \<open>now\<close>, no \<open>sent_at\<close>) whose joined invoice is paid is cancelled in the store,
  its \<open>sent_at\<close> stays unset, and the run makes no transport call for it. The ids of the
  reminders are unique, and the store applies the update it is sent.
\<close>

theorem paid_reminder_cancelled:
  assumes "due_query_error srv = None"
      and "distinct (map reminder_id (reminders st))"
      and "r \<in> set (reminders st)" and "is_due (now srv) r" and "sent_at r = None"
      and "invoice (embed_reminder st r) = Some iv" and "invoice_status (inv iv) = Paid"
      and "update_applied srv (reminder_id r)"
  shows "rows_with_id (store_after srv st) (reminder_id r)
           = [r\<lparr>reminder_status := Cancelled, sent_at := None\<rparr>]
         \<and> SendEmailCall (reminder_id r) c res \<notin> set (events_of srv st)"
proof -
  have due: "due_in srv st r"
    using assms(1-4) by (simp add: due_in_def)
  note run = run_paid [OF due assms(6,7)]
  have "r\<lparr>reminder_status := Cancelled\<rparr> = r\<lparr>reminder_status := Cancelled, sent_at := None\<rparr>"
    using assms(5) by simp
  with run(1) assms(8) have "rows_with_id (store_after srv st) (reminder_id r)
           = [r\<lparr>reminder_status := Cancelled, sent_at := None\<rparr>]"
    by simp
  moreover have "SendEmailCall (reminder_id r) c res \<notin> set (events_of srv st)"
    by (rule no_send_if_not_about [OF run(2)]) simp
  ultimately show ?thesis by simp
qed

theorem paid_reminder_cancelled_witness:
  "due_query_error example_server = None
   \<and> distinct (map reminder_id (reminders example_store))
   \<and> reminder_paid \<in> set (reminders example_store)
   \<and> is_due (now example_server) reminder_paid \<and> sent_at reminder_paid = None
   \<and> invoice (embed_reminder example_store reminder_paid)
       = Some \<lparr>inv = paid_invoice, client = Some scenario_client\<rparr>
   \<and> invoice_status (inv \<lparr>inv = paid_invoice, client = Some scenario_client\<rparr>) = Paid
   \<and> update_applied example_server (reminder_id reminder_paid)
   \<and> rows_with_id (store_after example_server example_store) (reminder_id reminder_paid)
       = [reminder_paid\<lparr>reminder_status := Cancelled, sent_at := None\<rparr>]
   \<and> SendEmailCall (reminder_id reminder_paid) example_content Success
       \<notin> set (events_of example_server example_store)"
proof -
  have iv: "invoice (embed_reminder example_store reminder_paid)
      = Some \<lparr>inv = paid_invoice, client = Some scenario_client\<rparr>"
    by (simp add: example_embed)
  have paid: "invoice_status (inv \<lparr>inv = paid_invoice, client = Some scenario_client\<rparr>) = Paid"
    by (simp add: example_status)
  from paid_reminder_cancelled [OF example_server_fields(1) example_distinct example_members(2)
      example_is_due(2) example_sent_at(2) iv paid example_server_fields(2),
      of example_content Success]
    example_server_fields(1,2) example_distinct example_members(2) example_is_due(2)
    example_sent_at(2) iv paid
  show ?thesis by simp
qed

subsection \<open>C2: a due reminder whose email is delivered\<close>

text \<open>
  C2, as stated, fails on the time stamp: \<open>sent_at\<close> is a fresh reading of the clock taken
  when the update is sent, not the reading \<open>now\<close> of the start of the run. In the example
  the run starts at 1736467200000 and the reminder is stamped 1736467201500.
\<close>

theorem sent_at_is_a_later_reading:
  "is_due (now example_server) reminder_unpaid
   \<and> SendEmailCall ''r1'' example_content Success \<in> set (events_of example_server example_store)
   \<and> rows_with_id (store_after example_server example_store) ''r1''
       = [reminder_unpaid\<lparr>reminder_status := ReminderSent, sent_at := Some 1736467201500\<rparr>]
   \<and> now example_server = 1736467200000"
  using example_is_due(1) example_run_sent(1)
    events_about_member [OF example_run_sent(2), of "SendEmailCall ''r1'' example_content Success"]
  by (simp add: example_server_fields)

text \<open>
  C2, amended: when the select succeeds and the transport call for a due reminder of an
  unpaid invoice returns success, the reminder is marked sent with \<open>sent_at\<close> equal to the
  reading of the clock taken when the update is sent, after the transport call has
  returned, and that call is the only transport call of the run for this reminder. The
  ids of the reminders are unique, and the store applies the update it is sent.
\<close>

theorem delivered_reminder_sent:
  assumes "due_query_error srv = None"
      and "distinct (map reminder_id (reminders st))"
      and "r \<in> set (reminders st)" and "is_due (now srv) r"
      and "invoice (embed_reminder st r) = Some iv" and "invoice_status (inv iv) \<noteq> Paid"
      and "SendEmailCall (reminder_id r) c Success \<in> set (events_of srv st)"
      and "update_applied srv (reminder_id r)"
  shows "rows_with_id (store_after srv st) (reminder_id r)
           = [r\<lparr>reminder_status := ReminderSent, sent_at := Some (sent_now srv (reminder_id r))\<rparr>]
         \<and> filter is_send (events_about (reminder_id r) (events_of srv st))
           = [SendEmailCall (reminder_id r) c Success]"
proof -
  have due: "due_in srv st r"
    using assms(1-4) by (simp add: due_in_def)
  from send_event_cases [OF due assms(7)] obtain iv' sb cl where
    c: "invoice (embed_reminder st r) = Some iv'" "invoice_status (inv iv') \<noteq> Paid"
      "formatEmailTemplate (time_zone srv) (today srv (reminder_id r))
         (template (embed_reminder st r)) (invoice (embed_reminder st r)) = Inr sb"
      "client iv' = Some cl" "c = content_for st iv' cl sb"
      "fst (sendEmail srv (reminder_id r) (content_for st iv' cl sb)) = Success"
    by blast
  note run = run_sent [OF due c(1,2,3,4,6)]
  from run(1) assms(8) run(2) c(5) show ?thesis by simp
qed

theorem delivered_reminder_sent_witness:
  "due_query_error example_server = None
   \<and> distinct (map reminder_id (reminders example_store))
   \<and> reminder_unpaid \<in> set (reminders example_store)
   \<and> is_due (now example_server) reminder_unpaid
   \<and> invoice (embed_reminder example_store reminder_unpaid)
       = Some \<lparr>inv = scenario_invoice, client = Some scenario_client\<rparr>
   \<and> invoice_status (inv \<lparr>inv = scenario_invoice, client = Some scenario_client\<rparr>) \<noteq> Paid
   \<and> SendEmailCall (reminder_id reminder_unpaid) example_content Success
       \<in> set (events_of example_server example_store)
   \<and> update_applied example_server (reminder_id reminder_unpaid)
   \<and> rows_with_id (store_after example_server example_store) (reminder_id reminder_unpaid)
       = [reminder_unpaid\<lparr>reminder_status := ReminderSent,
            sent_at := Some (sent_now example_server (reminder_id reminder_unpaid))\<rparr>]
   \<and> filter is_send (events_about (reminder_id reminder_unpaid)
                        (events_of example_server example_store))
       = [SendEmailCall (reminder_id reminder_unpaid) example_content Success]"
proof -
  have iv: "invoice (embed_reminder example_store reminder_unpaid)
      = Some \<lparr>inv = scenario_invoice, client = Some scenario_client\<rparr>"
    by (simp add: example_embed)
  have unpaid: "invoice_status (inv \<lparr>inv = scenario_invoice, client = Some scenario_client\<rparr>) \<noteq> Paid"
    by (simp add: example_status)
  have ev: "SendEmailCall (reminder_id reminder_unpaid) example_content Success
      \<in> set (events_of example_server example_store)"
    using events_about_member [OF example_run_sent(2),
        of "SendEmailCall ''r1'' example_content Success"]
    by (simp add: example_ids)
  from delivered_reminder_sent [OF example_server_fields(1) example_distinct example_members(1)
      example_is_due(1) iv unpaid ev example_server_fields(2)]
    example_server_fields(1,2) example_distinct example_members(1) example_is_due(1) iv unpaid ev
  show ?thesis by simp
qed

subsection \<open>C3: a due reminder whose email is not delivered\<close>



subsection \<open>A run whose select fails\<close>

lemma run_failed:
  assumes "due_query_error srv = Some e"
  shows "processScheduledReminders srv st
           = (Inr (), st, [ConsoleError (ErrorProcessingScheduledReminders (StoreError e))])"
  using assms by (simp add: processScheduledReminders_def process_try_def)

lemma failing_query_server_fields:
  "due_query_error failing_query_server = Some ''connection refused''"
  "API_SECRET_KEY failing_query_server = None"
  by (simp_all add: failing_query_server_def example_server_def)

subsection \<open>C4: the select of due reminders fails\<close>

text \<open>
  C4, as stated, fails on the propagation: the error of the select is thrown inside the
  outer \<^verbatim>\<open>try\<close> of the processor, whose \<^verbatim>\<open>catch\<close> logs it, so the call returns normally
  and the trigger answers with success.
\<close>

theorem failed_query_reports_success:
  "due_query_error failing_query_server = Some ''connection refused''
   \<and> fst (processScheduledReminders failing_query_server example_store) = Inr ()
   \<and> fst (POST failing_query_server None example_store) = Json200Success"
  using run_failed [OF failing_query_server_fields(1), of example_store]
  by (simp add: POST_def failing_query_server_fields truthy_def)

text \<open>
  C4, amended: when the select of due reminders fails, the run handles no reminder and
  sends no update: the store is unchanged and the only thing the run does is to log the
  error. The error does not reach the caller: the call returns normally, and the trigger,
  when the request is authorised, answers with success.
\<close>

theorem failed_query_is_swallowed:
  assumes "due_query_error srv = Some e"
      and "truthy (API_SECRET_KEY srv) = None \<or> apiKey = API_SECRET_KEY srv"
  shows "processScheduledReminders srv st
           = (Inr (), st, [ConsoleError (ErrorProcessingScheduledReminders (StoreError e))])
         \<and> POST srv apiKey st
           = (Json200Success, st,
              [ConsoleError (ErrorProcessingScheduledReminders (StoreError e))])"
  using assms run_failed [OF assms(1), of st] by (auto simp: POST_def)

theorem failed_query_is_swallowed_witness:
  "due_query_error failing_query_server = Some ''connection refused''
   \<and> truthy (API_SECRET_KEY failing_query_server) = None
   \<and> processScheduledReminders failing_query_server example_store
       = (Inr (), example_store,
          [ConsoleError (ErrorProcessingScheduledReminders (StoreError ''connection refused''))])
   \<and> POST failing_query_server None example_store
       = (Json200Success, example_store,
          [ConsoleError (ErrorProcessingScheduledReminders (StoreError ''connection refused''))])"
proof -
  have auth: "truthy (API_SECRET_KEY failing_query_server) = None"
    by (simp add: failing_query_server_fields truthy_def)
  from failed_query_is_swallowed [OF failing_query_server_fields(1) disjI1 [OF auth],
      where apiKey = None and st = example_store] failing_query_server_fields(1) auth
  show ?thesis by simp
qed

subsection \<open>C8: the renderer fails\<close>






subsection \<open>Reminders outside the due set\<close>

lemma run_failed_parts:
  assumes "due_query_error srv = Some e"
  shows "store_after srv st = st"
    and "events_of srv st = [ConsoleError (ErrorProcessingScheduledReminders (StoreError e))]"
  using run_failed [OF assms, of st] by (simp_all add: store_after_def events_of_def)

lemma embed_reminder_cong:
  assumes "clients st' = clients st" "invoices st' = invoices st"
      and "message_templates st' = message_templates st"
  shows "embed_reminder st' r = embed_reminder st r"
proof -
  have "embed_client st' = embed_client st"
    using assms(1) by (simp add: embed_client_def fun_eq_iff)
  with assms(2,3) show ?thesis
    by (simp add: embed_reminder_def)
qed

lemma updates_target_due:
  assumes "UpdateReminder x p \<in> set (events_of srv st)"
  shows "\<exists>r \<in> set (reminders st). is_due (now srv) r \<and> reminder_id r = x"
proof (cases "due_query_error srv")
  case (Some e)
  from run_failed_parts(2) [OF Some, of st] assms show ?thesis by simp
next
  case None
  from assms have "UpdateReminder x p \<in> set (snd (process_each srv (select_due st (now srv)) (st, [])))"
    by (simp add: run_unfold(2) [OF None])
  from process_each_new_events [OF this, of x]
  have "x \<in> set (map (reminder_id \<circ> rem) (select_due st (now srv)))"
    by simp
  then show ?thesis
    by (auto simp: select_due_def)
qed

lemma not_due_untouched:
  assumes dist: "distinct (map reminder_id (reminders st))"
      and r: "r \<in> set (reminders st)" "\<not> is_due (now srv) r"
  shows "rows_with_id (store_after srv st) (reminder_id r) = [r]"
proof (cases "due_query_error srv")
  case (Some e)
  from run_failed_parts(1) [OF Some, of st] rows_with_id_distinct [OF dist r(1)]
  show ?thesis by simp
next
  case None
  have "reminder_id r \<notin> set (map (reminder_id \<circ> rem) (select_due st (now srv)))"
  proof
    assume "reminder_id r \<in> set (map (reminder_id \<circ> rem) (select_due st (now srv)))"
    then obtain r2 where r2: "r2 \<in> set (reminders st)" "is_due (now srv) r2"
        "reminder_id r2 = reminder_id r"
      by (auto simp: select_due_def)
    from dist have "inj_on reminder_id (set (reminders st))"
      by (simp add: distinct_map)
    with r2(1,3) r(1) have "r2 = r"
      by (auto dest: inj_onD)
    with r2(2) r(2) show False by simp
  qed
  from process_each_rows_other [OF this, of srv "(st, [])"] rows_with_id_distinct [OF dist r(1)]
  show ?thesis
    by (simp add: run_unfold(1) [OF None])
qed

lemma not_due_not_read:
  assumes "users st' = users st" "clients st' = clients st" "invoices st' = invoices st"
      and "message_templates st' = message_templates st"
      and "filter (is_due (now srv)) (reminders st') = filter (is_due (now srv)) (reminders st)"
  shows "events_of srv st' = events_of srv st"
proof (cases "due_query_error srv")
  case (Some e)
  then show ?thesis by (simp add: run_failed_parts(2))
next
  case None
  have "select_due st' (now srv) = select_due st (now srv)"
    using assms(5) embed_reminder_cong [OF assms(2,3,4)] by (simp add: select_due_def)
  moreover have "snd (process_each srv rs (st', [])) = snd (process_each srv rs (st, []))" for rs
    by (rule process_each_events_cong) (simp_all add: assms(1))
  ultimately show ?thesis
    by (simp add: run_unfold(2) [OF None])
qed

subsection \<open>C9: reminders that are not due\<close>

text \<open>
  C9: with unique reminder ids, every update of a reminder that a run sends has the id of
  a reminder that was pending and due when the run started; a reminder that is not pending
  or is scheduled after \<open>now\<close> is the same row after the run; and the run does not read
  it: on any store with the same other tables and the same due reminders the run makes
  the same calls.
\<close>

theorem only_due_reminders_touched:
  assumes "distinct (map reminder_id (reminders st))"
  shows "(\<forall>x p. UpdateReminder x p \<in> set (events_of srv st) \<longrightarrow>
            (\<exists>r \<in> set (reminders st). is_due (now srv) r \<and> reminder_id r = x))
         \<and> (\<forall>r \<in> set (reminders st). \<not> is_due (now srv) r \<longrightarrow>
              rows_with_id (store_after srv st) (reminder_id r) = [r])
         \<and> (\<forall>st'. users st' = users st \<and> clients st' = clients st
                \<and> invoices st' = invoices st \<and> message_templates st' = message_templates st
                \<and> filter (is_due (now srv)) (reminders st')
                    = filter (is_due (now srv)) (reminders st)
              \<longrightarrow> events_of srv st' = events_of srv st)"
  using updates_target_due [of _ _ srv st] not_due_untouched [OF assms, of _ srv]
    not_due_not_read [of _ st srv]
  by blast

theorem only_due_reminders_touched_witness:
  "distinct (map reminder_id (reminders example_store))
   \<and> UpdateReminder ''r2'' SetCancelled \<in> set (events_of example_server example_store)
   \<and> reminder_paid \<in> set (reminders example_store) \<and> is_due (now example_server) reminder_paid
   \<and> reminder_id reminder_paid = ''r2''
   \<and> reminder_later \<in> set (reminders example_store)
   \<and> \<not> is_due (now example_server) reminder_later
   \<and> rows_with_id (store_after example_server example_store) (reminder_id reminder_later)
       = [reminder_later]
   \<and> filter (is_due (now example_server))
        (reminders (example_store\<lparr>reminders :=
           [reminder_no_template, reminder_unpaid, reminder_paid]\<rparr>))
       = filter (is_due (now example_server)) (reminders example_store)
   \<and> events_of example_server
        (example_store\<lparr>reminders := [reminder_no_template, reminder_unpaid, reminder_paid]\<rparr>)
       = events_of example_server example_store"
proof -
  let ?st' = "example_store\<lparr>reminders := [reminder_no_template, reminder_unpaid, reminder_paid]\<rparr>"
  have upd: "UpdateReminder ''r2'' SetCancelled \<in> set (events_of example_server example_store)"
    by (rule events_about_member [OF example_run_paid(2)]) simp
  have same_due: "filter (is_due (now example_server)) (reminders ?st')
      = filter (is_due (now example_server)) (reminders example_store)"
    using example_is_due by (simp add: example_store_def)
  have tables: "users ?st' = users example_store" "clients ?st' = clients example_store"
    "invoices ?st' = invoices example_store"
    "message_templates ?st' = message_templates example_store"
    by simp_all
  from only_due_reminders_touched [OF example_distinct, of example_server]
  have "rows_with_id (store_after example_server example_store) (reminder_id reminder_later)
          = [reminder_later]"
    and "events_of example_server ?st' = events_of example_server example_store"
    using example_members(4) example_is_due(4) same_due tables by blast+
  with example_distinct upd example_members(2,4) example_is_due(2,4) example_ids(2) same_due
  show ?thesis by simp
qed

subsection \<open>The two invoice queries\<close>

lemma filter_key_distinct:
  assumes "distinct (map f xs)" "x \<in> set xs"
  shows "filter (\<lambda>y. f y = f x) xs = [x]"
  using assms by (induction xs) (auto simp: filter_empty_conv rev_image_eqI)

lemma filter_key_distinct_and:
  assumes "distinct (map f xs)" "x \<in> set xs" "P x"
  shows "filter (\<lambda>y. f y = f x \<and> P y) xs = [x]"
proof -
  have "filter (\<lambda>y. f y = f x \<and> P y) xs = filter P (filter (\<lambda>y. f y = f x) xs)"
    by (simp add: conj_commute)
  with filter_key_distinct [OF assms(1,2)] assms(3) show ?thesis by simp
qed

lemma changed_of_zip:
  "map fst (filter (\<lambda>(u, d). P u d) (zip (map f xs) xs)) = map f (filter (\<lambda>d. P (f d) d) xs)"
  by (induction xs) auto

lemma update_each_events:
  "snd (update_each br ivs s)
     = snd s @ map (\<lambda>iv. UpdateInvoice (invoice_id (inv iv)) Overdue) ivs"
  by (induction ivs arbitrary: s) (simp_all add: update_invoice_def)

lemma inv_embed_client [simp]: "inv (embed_client st i) = i"
  by (simp add: embed_client_def)

lemma inv_set_overdue: "invoice_id (inv (set_overdue iv)) = invoice_id (inv iv)"
  "invoice_status (inv (set_overdue iv)) = Overdue"
  by (simp_all add: set_overdue_def)

lemma invoices_queryFn_result:
  assumes "invoice_query_error br = None"
  shows "fst (invoices_queryFn br userId st)
           = Inr (map (\<lambda>j. if sent_and_past br j then set_overdue (embed_client st j)
                             else embed_client st j)
                    (filter (\<lambda>j. invoice_user_id j = userId) (invoices st)))"
  using assms by (simp add: invoices_queryFn_def Let_def o_def)

lemma invoices_queryFn_events:
  assumes "invoice_query_error br = None"
  shows "snd (snd (invoices_queryFn br userId st))
           = map (\<lambda>j. UpdateInvoice (invoice_id j) Overdue)
               (filter (sent_and_past br) (filter (\<lambda>j. invoice_user_id j = userId) (invoices st)))"
proof -
  let ?f = "\<lambda>iv. if sent_and_past br (inv iv) then set_overdue iv else iv"
  have changed: "(invoice_status (inv (?f iv)) \<noteq> invoice_status (inv iv)) = sent_and_past br (inv iv)"
    for iv
    by (auto simp: inv_set_overdue sent_and_past_def)
  have "snd (snd (invoices_queryFn br userId st))
      = map (\<lambda>iv. UpdateInvoice (invoice_id (inv iv)) Overdue)
          (map ?f (filter (\<lambda>d. invoice_status (inv (?f d)) \<noteq> invoice_status (inv d))
             (map (embed_client st) (filter (\<lambda>j. invoice_user_id j = userId) (invoices st)))))"
    using assms
    by (simp add: invoices_queryFn_def Let_def update_each_events
        changed_of_zip [of "\<lambda>u d. invoice_status (inv u) \<noteq> invoice_status (inv d)" ?f])
  also have "\<dots> = map (\<lambda>j. UpdateInvoice (invoice_id j) Overdue)
               (filter (sent_and_past br) (filter (\<lambda>j. invoice_user_id j = userId) (invoices st)))"
    unfolding changed by (simp add: filter_map o_def inv_set_overdue)
  finally show ?thesis .
qed

lemma count_of_key:
  assumes "distinct (map f xs)" "x \<in> set xs" "inj g"
  shows "filter (\<lambda>e. e = g (f x)) (map (\<lambda>y. g (f y)) xs) = [g (f x)]"
proof -
  have "filter (\<lambda>e. e = g (f x)) (map (\<lambda>y. g (f y)) xs)
      = map (\<lambda>y. g (f y)) (filter (\<lambda>y. f y = f x) xs)"
    using assms(3) by (simp add: filter_map o_def inj_eq)
  with filter_key_distinct [OF assms(1,2)] show ?thesis by simp
qed


lemma invoice_queryFn_single:
  assumes "invoice_query_error br = None"
      and "distinct (map invoice_id (invoices st))"
      and "i \<in> set (invoices st)" and "sent_and_past br i"
  shows "invoice_queryFn br (invoice_user_id i) (invoice_id i) st
           = (Inr (if invoice_update_applied br (invoice_id i)
                   then set_overdue (embed_client st i) else embed_client st i),
              fst (update_invoice br (invoice_id i) (st, [])),
              [UpdateInvoice (invoice_id i) Overdue])"
proof -
  have "filter (\<lambda>j. invoice_id j = invoice_id i \<and> invoice_user_id j = invoice_user_id i)
          (invoices st) = [i]"
    by (rule filter_key_distinct_and [OF assms(2,3)]) simp
  with assms(1,4) show ?thesis
    by (simp add: invoice_queryFn_def Let_def update_invoice_def)
qed

lemma UpdateInvoice_inj: "inj (\<lambda>k. UpdateInvoice k Overdue)"
  by (simp add: inj_def)

lemma parseISO_utc: "parseISO 0 d = date_utc d"
  by (simp add: parseISO_def date_utc_def)

lemma offline_browser_fields:
  "invoice_query_error offline_browser = None" "browser_zone offline_browser = 0"
  "date_now offline_browser iid = 1736467200000" "\<not> invoice_update_applied offline_browser iid"
  by (simp_all add: offline_browser_def)

lemma scenario_invoice_ids:
  "invoice_id scenario_invoice = ''i1''" "invoice_user_id scenario_invoice = ''u1''"
  "invoice_status scenario_invoice = Sent"
  by (simp_all add: scenario_invoice_def)

lemma scenario_past:
  "parseISO (browser_zone offline_browser) (due_date scenario_invoice)
     < date_now offline_browser (invoice_id scenario_invoice)"
  unfolding offline_browser_fields scenario_fields parseISO_utc date_utc_2025_1_1
  by (simp add: msPerDay_def)

lemma example_invoices:
  "distinct (map invoice_id (invoices example_store))"
  "scenario_invoice \<in> set (invoices example_store)"
  "embed_client example_store scenario_invoice
     = \<lparr>inv = scenario_invoice, client = Some scenario_client\<rparr>"
  by (simp_all add: example_store_def embed_client_def scenario_invoice_def paid_invoice_def
      scenario_client_def)

subsection \<open>C5: sent invoices past their due date, on read\<close>

text \<open>
  C5, as stated, fails for the read of a single invoice: there the status of the returned
  invoice is overwritten only when the update reported no error. With a store that does
  not apply the update, the sent invoice of the scenario, read after its due date, comes
  back as sent.
\<close>

theorem single_invoice_read_keeps_sent:
  "invoice_status scenario_invoice = Sent
   \<and> parseISO (browser_zone offline_browser) (due_date scenario_invoice)
       < date_now offline_browser (invoice_id scenario_invoice)
   \<and> \<not> invoice_update_applied offline_browser ''i1''
   \<and> fst (invoice_queryFn offline_browser ''u1'' ''i1'' example_store)
       = Inr \<lparr>inv = scenario_invoice, client = Some scenario_client\<rparr>"
proof -
  have past: "sent_and_past offline_browser scenario_invoice"
    using scenario_past by (simp add: sent_and_past_def scenario_invoice_ids)
  from invoice_queryFn_single [OF offline_browser_fields(1) example_invoices(1,2) past]
    scenario_past
  show ?thesis
    by (simp add: scenario_invoice_ids offline_browser_fields example_invoices(3))
qed

text \<open>
  C5, amended: for every fetched invoice whose status is sent and whose due date (midnight
  of that day in the zone of the browser) is strictly in the past, with unique invoice ids:
  the read of the invoice list returns that invoice with status overdue and sends exactly
  one update setting it to overdue, whether or not the store applies the update; the read
  of the single invoice sends exactly one such update and does not fail either, and
  returns the invoice as overdue when the update succeeded and with its fetched status
  when it failed.
\<close>

theorem overdue_on_read:
  assumes "invoice_query_error br = None"
      and "distinct (map invoice_id (invoices st))"
      and "i \<in> set (invoices st)" and "invoice_status i = Sent"
      and "parseISO (browser_zone br) (due_date i) < date_now br (invoice_id i)"
  shows "(\<exists>ivs. fst (invoices_queryFn br (invoice_user_id i) st) = Inr ivs
            \<and> filter (\<lambda>iv. invoice_id (inv iv) = invoice_id i) ivs
                = [set_overdue (embed_client st i)])
         \<and> filter (\<lambda>e. e = UpdateInvoice (invoice_id i) Overdue)
              (snd (snd (invoices_queryFn br (invoice_user_id i) st)))
             = [UpdateInvoice (invoice_id i) Overdue]
         \<and> fst (invoice_queryFn br (invoice_user_id i) (invoice_id i) st)
             = Inr (if invoice_update_applied br (invoice_id i)
                    then set_overdue (embed_client st i) else embed_client st i)
         \<and> snd (snd (invoice_queryFn br (invoice_user_id i) (invoice_id i) st))
             = [UpdateInvoice (invoice_id i) Overdue]"
proof -
  have past: "sent_and_past br i"
    using assms(4,5) by (simp add: sent_and_past_def)
  let ?mine = "filter (\<lambda>j. invoice_user_id j = invoice_user_id i) (invoices st)"
  let ?f = "\<lambda>j. if sent_and_past br j then set_overdue (embed_client st j) else embed_client st j"
  have mine: "distinct (map invoice_id ?mine)" "i \<in> set ?mine"
    using assms(2,3) by (simp_all add: distinct_map_filter)
  have "filter (\<lambda>iv. invoice_id (inv iv) = invoice_id i) (map ?f ?mine)
      = map ?f (filter (\<lambda>j. invoice_id j = invoice_id i) ?mine)"
    by (simp add: filter_map o_def inv_set_overdue cong: if_cong)
  also have "\<dots> = [set_overdue (embed_client st i)]"
    using filter_key_distinct [OF mine] past by simp
  finally have listed: "\<exists>ivs. fst (invoices_queryFn br (invoice_user_id i) st) = Inr ivs
            \<and> filter (\<lambda>iv. invoice_id (inv iv) = invoice_id i) ivs
                = [set_overdue (embed_client st i)]"
    using invoices_queryFn_result [OF assms(1), of "invoice_user_id i" st] by simp
  have due: "distinct (map invoice_id (filter (sent_and_past br) ?mine))"
    "i \<in> set (filter (sent_and_past br) ?mine)"
  proof -
    show "distinct (map invoice_id (filter (sent_and_past br) ?mine))"
      using mine(1) by (rule distinct_map_filter)
    show "i \<in> set (filter (sent_and_past br) ?mine)"
      using mine(2) past by simp
  qed
  have once: "filter (\<lambda>e. e = UpdateInvoice (invoice_id i) Overdue)
              (snd (snd (invoices_queryFn br (invoice_user_id i) st)))
             = [UpdateInvoice (invoice_id i) Overdue]"
    unfolding invoices_queryFn_events [OF assms(1)]
    by (rule count_of_key [OF due UpdateInvoice_inj])
  from listed once invoice_queryFn_single [OF assms(1,2,3) past] show ?thesis
    by simp
qed

theorem overdue_on_read_witness:
  "invoice_query_error offline_browser = None
   \<and> distinct (map invoice_id (invoices example_store))
   \<and> scenario_invoice \<in> set (invoices example_store) \<and> invoice_status scenario_invoice = Sent
   \<and> parseISO (browser_zone offline_browser) (due_date scenario_invoice)
       < date_now offline_browser (invoice_id scenario_invoice)
   \<and> (\<exists>ivs. fst (invoices_queryFn offline_browser (invoice_user_id scenario_invoice)
                  example_store) = Inr ivs
          \<and> filter (\<lambda>iv. invoice_id (inv iv) = invoice_id scenario_invoice) ivs
              = [set_overdue (embed_client example_store scenario_invoice)])
   \<and> filter (\<lambda>e. e = UpdateInvoice (invoice_id scenario_invoice) Overdue)
        (snd (snd (invoices_queryFn offline_browser (invoice_user_id scenario_invoice)
                     example_store)))
       = [UpdateInvoice (invoice_id scenario_invoice) Overdue]
   \<and> fst (invoice_queryFn offline_browser (invoice_user_id scenario_invoice)
             (invoice_id scenario_invoice) example_store)
       = Inr (embed_client example_store scenario_invoice)
   \<and> snd (snd (invoice_queryFn offline_browser (invoice_user_id scenario_invoice)
                  (invoice_id scenario_invoice) example_store))
       = [UpdateInvoice (invoice_id scenario_invoice) Overdue]"
  using overdue_on_read [OF offline_browser_fields(1) example_invoices(1,2)
      scenario_invoice_ids(3) scenario_past]
    offline_browser_fields(1,4) example_invoices(1,2) scenario_invoice_ids(3) scenario_past
  by simp

end
